theory Spec2Isabelle
  imports Main "HOL-Library.List_Lexorder" "HOL-Library.AList"
begin

section \<open>Texts\<close>

text \<open>
  A Python \<open>str\<close> is a sequence of Unicode code points; it is modelled as a list of
  natural numbers, one per code point. \<open>ascii\<close> embeds a literal of the source.
  Python compares strings lexicographically by code point, which is the order of
  \<open>HOL-Library.List_Lexorder\<close> on \<open>nat list\<close>.

  What is modelled of the Python library:
  \<^item> \<open>str.strip()\<close> and the regular expression class \<open>\s\<close> use the white space of
    \<open>str.isspace\<close>, listed in \<open>is_space\<close>;
  \<^item> \<open>str.upper()\<close> and \<open>str.lower()\<close> are modelled on the ASCII letters; the case
    mapping of other letters is not modelled (they are left as they are);
  \<^item> the class \<open>\d\<close> and \<open>int()\<close> are modelled on the ASCII digits.
\<close>

type_synonym ustr = "nat list"

definition ascii :: "string \<Rightarrow> ustr" where
  "ascii s = map of_char s"

definition is_space :: "nat \<Rightarrow> bool" where
  "is_space c \<longleftrightarrow>
     (9 \<le> c \<and> c \<le> 13) \<or> (28 \<le> c \<and> c \<le> 32) \<or> c = 133 \<or> c = 160 \<or> c = 5760 \<or>
     (8192 \<le> c \<and> c \<le> 8202) \<or> c = 8232 \<or> c = 8233 \<or> c = 8239 \<or> c = 8287 \<or> c = 12288"

definition is_digit :: "nat \<Rightarrow> bool" where
  "is_digit c \<longleftrightarrow> 48 \<le> c \<and> c \<le> 57"

text \<open>\<open>s.strip()\<close>: white space removed at both ends.\<close>

definition py_strip :: "ustr \<Rightarrow> ustr" where
  "py_strip s = rev (dropWhile is_space (rev (dropWhile is_space s)))"

definition upper_char :: "nat \<Rightarrow> nat" where
  "upper_char c = (if 97 \<le> c \<and> c \<le> 122 then c - 32 else c)"

definition lower_char :: "nat \<Rightarrow> nat" where
  "lower_char c = (if 65 \<le> c \<and> c \<le> 90 then c + 32 else c)"

definition py_upper :: "ustr \<Rightarrow> ustr" where
  "py_upper s = map upper_char s"

definition py_lower :: "ustr \<Rightarrow> ustr" where
  "py_lower s = map lower_char s"

text \<open>\<open>s.startswith(p)\<close> and \<open>p in s\<close>.\<close>

fun startswith :: "ustr \<Rightarrow> ustr \<Rightarrow> bool" where
  "startswith s [] = True"
| "startswith [] (p # ps) = False"
| "startswith (c # cs) (p # ps) = (c = p \<and> startswith cs ps)"

fun contains :: "ustr \<Rightarrow> ustr \<Rightarrow> bool" where
  "contains [] p = (p = [])"
| "contains (c # cs) p = (startswith (c # cs) p \<or> contains cs p)"

text \<open>\<open>str(n)\<close> of a non-negative integer, and \<open>int(s)\<close> of a string of digits.\<close>

fun str_nat :: "nat \<Rightarrow> ustr" where
  "str_nat n = (if n < 10 then [48 + n] else str_nat (n div 10) @ [48 + n mod 10])"

declare str_nat.simps [simp del]

definition int_digits :: "ustr \<Rightarrow> nat" where
  "int_digits ds = foldl (\<lambda>acc c. 10 * acc + (c - 48)) 0 ds"

section \<open>Helpers of the scraper\<close>

text \<open>\<open>_norm_key(s)\<close>: \<open>(s or "").strip().lower()\<close>.\<close>

definition norm_key :: "ustr \<Rightarrow> ustr" where
  "norm_key s = py_lower (py_strip s)"

text \<open>
  \<open>norm_text\<close>: a non-breaking space becomes a space, the text is stripped, and a text
  that contains U+00C3 or U+00C2 is passed through
  \<open>s.encode("latin-1", "ignore").decode("utf-8", "ignore")\<close>. This codec round trip
  is the Python library's; it is the parameter \<open>recode\<close>.
\<close>

definition norm_text :: "(ustr \<Rightarrow> ustr) \<Rightarrow> ustr \<Rightarrow> ustr" where
  "norm_text recode s0 =
     (if s0 = [] then []
      else let s = py_strip (map (\<lambda>c. if c = 160 then 32 else c) s0)
           in if 195 \<in> set s \<or> 194 \<in> set s then recode s else s)"

text \<open>
  \<open>parse_score\<close>: the pattern \<open>^\s*(\d+)\s*[-\<dots>]\s*(\d+)\s*$\<close> on the stripped text; the
  separator is the hyphen (45) or the en dash (8211). The classes of the pattern are
  disjoint, so the match is read off from left to right.
\<close>

definition parse_score :: "ustr \<Rightarrow> (nat \<times> nat) option" where
  "parse_score s0 =
     (if s0 = [] then None
      else
        let s = py_strip s0;
            r1 = dropWhile is_space s;
            d1 = takeWhile is_digit r1;
            r2 = dropWhile is_space (dropWhile is_digit r1)
        in if d1 = [] then None
           else case r2 of
             [] \<Rightarrow> None
           | c # r3 \<Rightarrow>
               if c \<noteq> 45 \<and> c \<noteq> 8211 then None
               else
                 let r4 = dropWhile is_space r3;
                     d2 = takeWhile is_digit r4;
                     r5 = dropWhile is_space (dropWhile is_digit r4)
                 in if d2 = [] \<or> r5 \<noteq> [] then None
                    else Some (int_digits d1, int_digits d2))"

definition CHAMPIONS_LEAGUE :: ustr where
  "CHAMPIONS_LEAGUE = ascii ''CHAMPIONS LEAGUE''"

definition EUROPA_LEAGUE :: ustr where
  "EUROPA_LEAGUE = ascii ''EUROPA LEAGUE''"

definition CONFERENCE_LEAGUE :: ustr where
  "CONFERENCE_LEAGUE = ascii ''CONFERENCE LEAGUE''"

definition norm_cup_name :: "ustr \<Rightarrow> ustr" where
  "norm_cup_name s0 =
     (let s = py_strip s0 in
      if s = [] then []
      else
        let su = py_upper s in
        if contains su (ascii ''UEFA CUP'') \<or> su = ascii ''UEFA CUP'' then EUROPA_LEAGUE
        else if contains su (ascii ''EUROPA LEAGUE'') \<or> startswith su (ascii ''EUROPA'')
          then EUROPA_LEAGUE
        else if contains su (ascii ''CHAMPION'') then CHAMPIONS_LEAGUE
        else if contains su (ascii ''CONFERENCE'') then CONFERENCE_LEAGUE
        else s)"

section \<open>Pages, tables and rows\<close>

text \<open>
  What the walker reads of the parsed page. A table is the list of its \<open>tr\<close> elements
  (\<open>table.find_all("tr")\<close>). Of a row it reads the first \<open>th\<close> (\<open>tr.find("th")\<close>), and
  there the text of the first \<open>div\<close> of class \<open>cupheader\<close> and of class \<open>roundheader\<close>,
  and the \<open>td\<close> cells (\<open>tr.find_all("td")\<close>): of each its text, its \<open>colspan\<close>
  attribute and whether it holds a \<open>b\<close> element.
\<close>

record td =
  td_text :: ustr
  td_colspan :: "ustr option"
  td_bold :: bool

record th =
  th_cupheader :: "ustr option"
  th_roundheader :: "ustr option"

record tr =
  tr_th :: "th option"
  tr_tds :: "td list"

text \<open>One row of the per-year CSV (\<open>CSV_FIELDS\<close>): one leg.\<close>

record legrow =
  season_page :: int
  cup :: ustr
  comp_stage :: ustr
  leg_no :: nat
  home :: ustr
  home_cc :: ustr
  away :: ustr
  away_cc :: ustr
  score :: ustr
  goals_home :: ustr
  goals_away :: ustr
  winner :: ustr
  two_leg_winner :: ustr

text \<open>
  The rows of one data row, once its cells are read. The source has this block twice,
  word for word: in the branch of rows of six cells or more and in the fallback branch
  of rows of four cells or more.
\<close>

definition emit_legs ::
  "int \<Rightarrow> ustr \<Rightarrow> ustr \<Rightarrow> ustr \<Rightarrow> ustr \<Rightarrow> ustr \<Rightarrow> ustr \<Rightarrow> ustr \<Rightarrow> ustr \<Rightarrow> bool \<Rightarrow> bool \<Rightarrow>
   legrow list" where
  "emit_legs year current_cup current_stage team1 team1_cc team2 team2_cc leg1_txt leg2_txt
     t1_bold t2_bold =
     (let l1 = parse_score leg1_txt;
          l2 = parse_score leg2_txt;
          two_leg_winner_name =
            (if t1_bold \<and> \<not> t2_bold then team1
             else if t2_bold \<and> \<not> t1_bold then team2 else []);
          gh1 = (case l1 of Some l \<Rightarrow> str_nat (fst l) | None \<Rightarrow> []);
          ga1 = (case l1 of Some l \<Rightarrow> str_nat (snd l) | None \<Rightarrow> []);
          row1 = \<lparr>season_page = year, cup = current_cup, comp_stage = current_stage,
                  leg_no = 1, home = team1, home_cc = team1_cc, away = team2,
                  away_cc = team2_cc, score = leg1_txt, goals_home = gh1, goals_away = ga1,
                  winner = [],
                  two_leg_winner = (if leg2_txt \<noteq> [] then two_leg_winner_name else [])\<rparr>;
          gh2_src = (case l2 of Some l \<Rightarrow> str_nat (fst l) | None \<Rightarrow> []);
          ga2_src = (case l2 of Some l \<Rightarrow> str_nat (snd l) | None \<Rightarrow> []);
          gh2 = ga2_src;
          ga2 = gh2_src;
          score2 = (if gh2_src \<noteq> [] \<and> ga2_src \<noteq> [] then gh2 @ ascii ''-'' @ ga2
                    else leg2_txt);
          row2 = \<lparr>season_page = year, cup = current_cup, comp_stage = current_stage,
                  leg_no = 2, home = team2, home_cc = team2_cc, away = team1,
                  away_cc = team1_cc, score = score2, goals_home = gh2, goals_away = ga2,
                  winner = [], two_leg_winner = []\<rparr>
      in (if team1 \<noteq> [] \<or> team2 \<noteq> [] then [row1] else []) @
         (if leg2_txt \<noteq> [] then [row2] else []))"

text \<open>The header a row carries, if any: the competition header is looked for first.\<close>

datatype header = CupHeader ustr | RoundHeader ustr

definition header_of :: "tr \<Rightarrow> header option" where
  "header_of r =
     (case tr_th r of
        None \<Rightarrow> None
      | Some h \<Rightarrow>
          (case th_cupheader h of
             Some t \<Rightarrow> Some (CupHeader t)
           | None \<Rightarrow>
               (case th_roundheader h of
                  Some t \<Rightarrow> Some (RoundHeader t)
                | None \<Rightarrow> None)))"

text \<open>\<open>tds[0].get("colspan")\<close> as a condition: the attribute is there and not empty.\<close>

definition has_colspan :: "td \<Rightarrow> bool" where
  "has_colspan c = (case td_colspan c of None \<Rightarrow> False | Some v \<Rightarrow> v \<noteq> [])"

text \<open>
  One turn of the loop of \<open>parse_table_matches\<close>: the context after the row and the
  rows appended to \<open>rows_acc\<close>.
\<close>

definition parse_tr ::
  "(ustr \<Rightarrow> ustr) \<Rightarrow> int \<Rightarrow> tr \<Rightarrow> ustr \<times> ustr \<Rightarrow> (ustr \<times> ustr) \<times> legrow list" where
  "parse_tr recode year r ctx =
     (let current_cup = fst ctx; current_stage = snd ctx; tds = tr_tds r in
      case header_of r of
        Some (CupHeader t) \<Rightarrow> ((norm_text recode t, []), [])
      | Some (RoundHeader t) \<Rightarrow> ((current_cup, norm_text recode t), [])
      | None \<Rightarrow>
          if tds = [] then (ctx, [])
          else if length tds = 1 \<and> has_colspan (tds ! 0) then (ctx, [])
          else if length tds \<ge> 6 then
            (ctx,
             emit_legs year current_cup current_stage
               (norm_text recode (td_text (tds ! 0))) (norm_text recode (td_text (tds ! 1)))
               (norm_text recode (td_text (tds ! 2))) (norm_text recode (td_text (tds ! 3)))
               (norm_text recode (td_text (tds ! 4))) (norm_text recode (td_text (tds ! 5)))
               (td_bold (tds ! 0)) (td_bold (tds ! 2)))
          else if length tds \<ge> 4 then
            (ctx,
             emit_legs year current_cup current_stage
               (norm_text recode (td_text (tds ! 0)))
               (if length tds > 1 then norm_text recode (td_text (tds ! 1)) else [])
               (if length tds > 2 then norm_text recode (td_text (tds ! 2)) else [])
               (if length tds > 3 then norm_text recode (td_text (tds ! 3)) else [])
               (if length tds > 4 then norm_text recode (td_text (tds ! 4)) else [])
               (if length tds > 5 then norm_text recode (td_text (tds ! 5)) else [])
               (td_bold (tds ! 0)) (td_bold (tds ! 2)))
          else (ctx, []))"

text \<open>
  \<open>parse_table_matches(table, current_cup, current_stage, year, rows_acc)\<close>: the rows
  are appended to \<open>rows_acc\<close> and the context is returned.
\<close>

fun parse_table_matches ::
  "(ustr \<Rightarrow> ustr) \<Rightarrow> tr list \<Rightarrow> ustr \<Rightarrow> ustr \<Rightarrow> int \<Rightarrow> legrow list \<Rightarrow>
   (ustr \<times> ustr) \<times> legrow list" where
  "parse_table_matches recode [] current_cup current_stage year rows_acc =
     ((current_cup, current_stage), rows_acc)"
| "parse_table_matches recode (r # rs) current_cup current_stage year rows_acc =
     (case parse_tr recode year r (current_cup, current_stage) of
        (ctx, new_rows) \<Rightarrow>
          parse_table_matches recode rs (fst ctx) (snd ctx) year (rows_acc @ new_rows))"

text \<open>
  The loop of \<open>main\<close> over the tables of one page (\<open>soup.select("table.t1")\<close>):
  \<open>current_cup\<close>, \<open>current_stage\<close> and \<open>year_rows\<close> are initialised once per page,
  and each call takes the context the call before returned.
\<close>

fun parse_tables ::
  "(ustr \<Rightarrow> ustr) \<Rightarrow> int \<Rightarrow> tr list list \<Rightarrow> ustr \<times> ustr \<Rightarrow> legrow list \<Rightarrow>
   (ustr \<times> ustr) \<times> legrow list" where
  "parse_tables recode y [] ctx year_rows = (ctx, year_rows)"
| "parse_tables recode y (table # tables) ctx year_rows =
     (case parse_table_matches recode table (fst ctx) (snd ctx) y year_rows of
        (ctx', year_rows') \<Rightarrow> parse_tables recode y tables ctx' year_rows')"

definition parse_page :: "(ustr \<Rightarrow> ustr) \<Rightarrow> int \<Rightarrow> tr list list \<Rightarrow> legrow list" where
  "parse_page recode y tables = snd (parse_tables recode y tables ([], []) [])"

section \<open>Dimensions\<close>

text \<open>
  \<open>df\<close> is the frame read back from the per-year files: the rows of all pages, every
  field a string (an absent value is the empty string). The model keeps the year and
  the leg number as the numbers that were written.
\<close>

text \<open>\<open>Series.unique()\<close>: the distinct values in the order of their first appearance.\<close>

definition unique :: "'a list \<Rightarrow> 'a list" where
  "unique xs = fold (\<lambda>x acc. if x \<in> set acc then acc else acc @ [x]) xs []"

definition cups_unique :: "legrow list \<Rightarrow> ustr list" where
  "cups_unique df = filter (\<lambda>c. c \<noteq> []) (unique (map (\<lambda>r. norm_cup_name (cup r)) df))"

definition CUP_ID_FIXED :: "(ustr \<times> nat) list" where
  "CUP_ID_FIXED = [(CHAMPIONS_LEAGUE, 1), (EUROPA_LEAGUE, 2), (CONFERENCE_LEAGUE, 3)]"

text \<open>
  The rows \<open>{'cup_id': .., 'cup_kes': ..}\<close> are pairs; the set \<open>used\<close> is the list of
  its elements. First the loop over \<open>CUP_ID_FIXED.items()\<close>.
\<close>

definition fixed_cups :: "ustr list \<Rightarrow> (nat \<times> ustr) list \<times> nat list" where
  "fixed_cups cs =
     fold (\<lambda>item st. if fst item \<in> set cs
                      then (fst st @ [(snd item, fst item)], snd st @ [snd item]) else st)
       CUP_ID_FIXED ([], [])"

text \<open>\<open>while next_id in used: next_id += 1\<close>\<close>

function next_free :: "nat \<Rightarrow> nat list \<Rightarrow> nat" where
  "next_free next_id used =
     (if next_id \<in> set used then next_free (next_id + 1) used else next_id)"
  by pat_completeness auto
termination
proof (relation "measure (\<lambda>(next_id, used). Suc (Max (set used)) - next_id)")
  show "wf (measure (\<lambda>(next_id, used). Suc (Max (set used)) - next_id))"
    by simp
next
  fix next_id :: nat and used :: "nat list"
  assume "next_id \<in> set used"
  then have "next_id \<le> Max (set used)"
    by simp
  then show "((next_id + 1, used), (next_id, used))
      \<in> measure (\<lambda>(next_id, used). Suc (Max (set used)) - next_id)"
    by simp
qed

declare next_free.simps [simp del]

text \<open>The loop over \<open>remaining\<close>; the state is \<open>(cup_rows, used, next_id)\<close>.\<close>

fun assign_remaining ::
  "ustr list \<Rightarrow> (nat \<times> ustr) list \<times> nat list \<times> nat \<Rightarrow> (nat \<times> ustr) list \<times> nat list \<times> nat" where
  "assign_remaining [] st = st"
| "assign_remaining (cname # rest) (cup_rows, used, next_id) =
     (let n = next_free next_id used
      in assign_remaining rest (cup_rows @ [(n, cname)], used @ [n], n + 1))"

definition remaining :: "ustr list \<Rightarrow> ustr list" where
  "remaining cs = sort (filter (\<lambda>c. c \<notin> fst ` set CUP_ID_FIXED) cs)"

definition cup_rows :: "ustr list \<Rightarrow> (nat \<times> ustr) list" where
  "cup_rows cs =
     (let st = fixed_cups cs
      in fst (assign_remaining (remaining cs) (fst st, snd st, 4)))"

text \<open>
  \<open>pd.DataFrame(cup_rows).sort_values('cup_id')\<close>: a frame made from no row has no
  column \<open>cup_id\<close>, and sorting it raises \<open>KeyError\<close>.
\<close>

datatype error = KeyError

definition dim_cups :: "ustr list \<Rightarrow> error + (nat \<times> ustr) list" where
  "dim_cups cs = (if cup_rows cs = [] then Inl KeyError else Inr (sort_key fst (cup_rows cs)))"

text \<open>\<open>dict(zip(dim_cups['cup_kes'], dim_cups['cup_id']))\<close>\<close>

definition cup_map :: "(nat \<times> ustr) list \<Rightarrow> (ustr \<rightharpoonup> nat)" where
  "cup_map rows = fold (\<lambda>row m. m(snd row \<mapsto> fst row)) rows Map.empty"

subsection \<open>Stages\<close>

record stage_row =
  stage_id :: nat
  comp_stage_kes :: ustr
  importance :: nat

text \<open>The entries of \<open>PROVIDED_STAGE_MAPPING\<close>: stage id, stage name, importance.\<close>

definition PROVIDED_STAGE_MAPPING :: "(nat \<times> ustr \<times> nat) list" where
  "PROVIDED_STAGE_MAPPING =
     [(1, ascii ''Final'', 1),
      (2, ascii ''Semi Finals'', 2),
      (3, ascii ''Quarter Finals'', 3),
      (4, ascii ''2nd Group Stage'', 4),
      (5, ascii ''Round 4'', 4),
      (6, ascii ''Round of 16'', 4),
      (7, ascii ''Knockout round play-offs'', 5),
      (8, ascii ''Round 3'', 6),
      (9, ascii ''1st Group Stage'', 7),
      (10, ascii ''Group Stage'', 7),
      (11, ascii ''League Stage'', 7),
      (12, ascii ''Round 2'', 8),
      (13, ascii ''Round 1'', 9),
      (14, ascii ''4th Qualifying or Play-off Round'', 10),
      (15, ascii ''Qualifying Play-off Round'', 10),
      (16, ascii ''3rd Qualifying Round'', 11),
      (17, ascii ''2nd Qualifying Round'', 12),
      (18, ascii ''Qualifying Round'', 12),
      (19, ascii ''1st Qualifying Round'', 13),
      (20, ascii ''Preliminary Round'', 14)]"

definition unique_stages :: "legrow list \<Rightarrow> ustr list" where
  "unique_stages df = filter (\<lambda>s. s \<noteq> []) (unique (map (\<lambda>r. py_strip (comp_stage r)) df))"

text \<open>
  The dictionary \<open>dim_stages_rows\<close>, from stage id to row, as an association list in
  insertion order: the synthetic row 0, then the provided entries.
\<close>

definition seed_stages :: "(nat \<times> stage_row) list" where
  "seed_stages =
     fold (\<lambda>item d. AList.update (fst item)
             \<lparr>stage_id = fst item, comp_stage_kes = fst (snd item),
              importance = snd (snd item)\<rparr> d)
       PROVIDED_STAGE_MAPPING
       [(0, \<lparr>stage_id = 0, comp_stage_kes = ascii ''Winner'', importance = 0\<rparr>)]"

text \<open>
  The loop that adds the unseen stages; the state is
  \<open>(dim_stages_rows, seen_norm, next_stage_id)\<close>.
\<close>

fun add_stages ::
  "ustr list \<Rightarrow> (nat \<times> stage_row) list \<times> ustr set \<times> nat \<Rightarrow>
   (nat \<times> stage_row) list \<times> ustr set \<times> nat" where
  "add_stages [] st = st"
| "add_stages (s # ss) (d, seen_norm, next_stage_id) =
     (let nk = norm_key s in
      if nk \<notin> seen_norm
      then add_stages ss
             (AList.update next_stage_id
                \<lparr>stage_id = next_stage_id, comp_stage_kes = s, importance = 0\<rparr> d,
              insert nk seen_norm, next_stage_id + 1)
      else add_stages ss (d, seen_norm, next_stage_id))"

text \<open>
  \<open>seen_norm\<close> before the loop; and the names for which the loop, started with a given
  \<open>seen_norm\<close>, adds a row, in the order in which it adds them.
\<close>

definition seed_keys :: "ustr set" where
  "seed_keys = set (map (\<lambda>kv. norm_key (comp_stage_kes (snd kv))) seed_stages)"

fun new_stages :: "ustr set \<Rightarrow> ustr list \<Rightarrow> ustr list" where
  "new_stages seen_norm [] = []"
| "new_stages seen_norm (s # ss) =
     (if norm_key s \<notin> seen_norm then s # new_stages (insert (norm_key s) seen_norm) ss
      else new_stages seen_norm ss)"

definition dim_stages_rows :: "ustr list \<Rightarrow> (nat \<times> stage_row) list" where
  "dim_stages_rows us =
     fst (add_stages (sort us) (seed_stages, seed_keys, Max (set (map fst seed_stages)) + 1))"

text \<open>The row the loop adds for an id and a name; and the names it adds for \<open>us\<close>.\<close>

definition new_row :: "nat \<times> ustr \<Rightarrow> nat \<times> stage_row" where
  "new_row p = (fst p, \<lparr>stage_id = fst p, comp_stage_kes = snd p, importance = 0\<rparr>)"

definition appended :: "ustr list \<Rightarrow> ustr list" where
  "appended us = new_stages seed_keys (sort us)"

text \<open>\<open>[dim_stages_rows[k] for k in sorted(dim_stages_rows.keys())]\<close>\<close>

definition dim_stages :: "ustr list \<Rightarrow> stage_row list" where
  "dim_stages us = map snd (sort_key fst (dim_stages_rows us))"

definition stage_map_norm :: "stage_row list \<Rightarrow> (ustr \<rightharpoonup> nat)" where
  "stage_map_norm rows =
     fold (\<lambda>r m. m(norm_key (comp_stage_kes r) \<mapsto> stage_id r)) rows Map.empty"

subsection \<open>Clubs\<close>

definition clubs :: "legrow list \<Rightarrow> ustr list" where
  "clubs df =
     sort (remdups (filter (\<lambda>c. c \<noteq> [])
       (map (\<lambda>r. py_strip (home r)) df @ map (\<lambda>r. py_strip (away r)) df)))"

text \<open>The frame \<open>dim_clubs\<close>: ids from 1 in the order of \<open>clubs\<close>.\<close>

definition dim_clubs :: "legrow list \<Rightarrow> (nat \<times> ustr) list" where
  "dim_clubs df = zip [1 ..< length (clubs df) + 1] (clubs df)"

definition club_map :: "(nat \<times> ustr) list \<Rightarrow> (ustr \<rightharpoonup> nat)" where
  "club_map rows = fold (\<lambda>row m. m(snd row \<mapsto> fst row)) rows Map.empty"

section \<open>The fact table\<close>

text \<open>
  \<open>pd.to_numeric(.., errors='coerce')\<close> on a goals column. The column holds what the
  walker wrote: the decimal digits of \<open>str(int)\<close> or the empty string, which becomes
  NaN. NaN is \<open>None\<close>; other texts are outside what is modelled of \<open>to_numeric\<close> and
  are read as NaN.
\<close>

definition to_numeric :: "ustr \<Rightarrow> nat option" where
  "to_numeric s = (if s \<noteq> [] \<and> list_all is_digit s then Some (int_digits s) else None)"

text \<open>Comparisons of two numeric columns, element by element: false where one is NaN.\<close>

definition np_gt :: "nat option \<Rightarrow> nat option \<Rightarrow> bool" where
  "np_gt a b = (case a of None \<Rightarrow> False | Some x \<Rightarrow> (case b of None \<Rightarrow> False | Some y \<Rightarrow> x > y))"

definition np_lt :: "nat option \<Rightarrow> nat option \<Rightarrow> bool" where
  "np_lt a b = (case a of None \<Rightarrow> False | Some x \<Rightarrow> (case b of None \<Rightarrow> False | Some y \<Rightarrow> x < y))"

definition np_eq :: "nat option \<Rightarrow> nat option \<Rightarrow> bool" where
  "np_eq a b = (case a of None \<Rightarrow> False | Some x \<Rightarrow> (case b of None \<Rightarrow> False | Some y \<Rightarrow> x = y))"

text \<open>
  \<open>.astype('Int64').astype(str)\<close>: a nullable integer as a string; the missing value
  \<open>pd.NA\<close> is printed as \<open><NA>\<close>.
\<close>

definition int64_str :: "nat option \<Rightarrow> ustr" where
  "int64_str v = (case v of None \<Rightarrow> ascii ''<NA>'' | Some n \<Rightarrow> str_nat n)"

text \<open>The frame \<open>fact\<close>, column by column; a nullable integer column holds options.\<close>

record fact =
  fact_season_page :: "int list"
  fact_leg_no :: "nat option list"
  fact_cup_id :: "nat option list"
  fact_comp_stage_id :: "nat option list"
  fact_home_club_id :: "nat option list"
  fact_away_club_id :: "nat option list"
  fact_home_cc :: "ustr list"
  fact_away_cc :: "ustr list"
  fact_score :: "ustr list"
  fact_goals_home :: "ustr list"
  fact_goals_away :: "ustr list"
  fact_winner :: "ustr list"
  fact_two_leg_winner :: "nat option list"

text \<open>
  The columns are computed as in \<open>main\<close>: each from a column of \<open>df\<close>, the winner from
  the goal and club id columns of \<open>fact\<close>, element by element. \<open>np.where\<close> picks the
  home id, the away id or NaN; a club id that is missing stays missing on its way
  through the float column and back to \<open>Int64\<close>, and is then printed by
  \<open>int64_str\<close>; the mask blanks the rows where a goal count is missing.
\<close>

definition fact_table ::
  "(ustr \<rightharpoonup> nat) \<Rightarrow> (ustr \<rightharpoonup> nat) \<Rightarrow> (ustr \<rightharpoonup> nat) \<Rightarrow> legrow list \<Rightarrow> fact" where
  "fact_table cup_m stage_m club_m df =
     (let home_id = map (\<lambda>r. club_m (py_strip (home r))) df;
          away_id = map (\<lambda>r. club_m (py_strip (away r))) df;
          goals_h = map goals_home df;
          goals_a = map goals_away df;
          gh = map to_numeric goals_h;
          ga = map to_numeric goals_a;
          winner_id =
            map (\<lambda>(g, a, h, w). if np_gt g a then h else if np_lt g a then w else None)
              (zip gh (zip ga (zip home_id away_id)));
          winner_str =
            map (\<lambda>(g, a, w). if np_eq g a then ascii ''draw'' else int64_str w)
              (zip gh (zip ga winner_id));
          missing_mask = map (\<lambda>(g, a). g = None \<or> a = None) (zip gh ga);
          tlw_id = map (\<lambda>r. club_m (py_strip (two_leg_winner r))) df
      in \<lparr>fact_season_page = map season_page df,
          fact_leg_no = map (\<lambda>r. Some (leg_no r)) df,
          fact_cup_id = map (\<lambda>r. cup_m (py_strip (norm_cup_name (cup r)))) df,
          fact_comp_stage_id = map (\<lambda>r. stage_m (norm_key (comp_stage r))) df,
          fact_home_club_id = home_id,
          fact_away_club_id = away_id,
          fact_home_cc = map home_cc df,
          fact_away_cc = map away_cc df,
          fact_score = map score df,
          fact_goals_home = goals_h,
          fact_goals_away = goals_a,
          fact_winner = map (\<lambda>(w, m). if m then [] else w) (zip winner_str missing_mask),
          fact_two_leg_winner =
            map (\<lambda>(t, r). if leg_no r = 1 then t else None) (zip tlw_id df)\<rparr>)"

text \<open>The second half of \<open>main\<close>: the three dimensions and the fact table of \<open>df\<close>.\<close>

definition build_frames ::
  "legrow list \<Rightarrow> error + (nat \<times> ustr) list \<times> stage_row list \<times> (nat \<times> ustr) list \<times> fact" where
  "build_frames df =
     (case dim_cups (cups_unique df) of
        Inl e \<Rightarrow> Inl e
      | Inr dc \<Rightarrow>
          (let ds = dim_stages (unique_stages df); dcl = dim_clubs df
           in Inr (dc, ds, dcl,
                   fact_table (cup_map dc) (stage_map_norm ds) (club_map dcl) df)))"

section \<open>Pairs of legs\<close>

text \<open>
  \<open>follows_first rc y R e1 e2\<close>: a row of \<open>R\<close> of six cells or more gave exactly the
  two rows \<open>e1\<close> and \<open>e2\<close>, \<open>e1\<close> is a first leg with the teams and country codes of
  \<open>e2\<close> swapped and with its year, competition and stage, and the goals of \<open>e2\<close> are
  the printed figures of the second leg, swapped. \<open>paired\<close>: every second leg of the
  list that names a team follows its first leg.
\<close>

definition follows_first ::
  "(ustr \<Rightarrow> ustr) \<Rightarrow> int \<Rightarrow> tr set \<Rightarrow> legrow \<Rightarrow> legrow \<Rightarrow> bool" where
  "follows_first rc y R e1 e2 \<longleftrightarrow>
     (\<exists>r\<in>R. \<exists>ctx. snd (parse_tr rc y r ctx) = [e1, e2] \<and> 6 \<le> length (tr_tds r) \<and>
        goals_home e2 =
          (case parse_score (norm_text rc (td_text (tr_tds r ! 5))) of
             Some l \<Rightarrow> str_nat (snd l) | None \<Rightarrow> []) \<and>
        goals_away e2 =
          (case parse_score (norm_text rc (td_text (tr_tds r ! 5))) of
             Some l \<Rightarrow> str_nat (fst l) | None \<Rightarrow> [])) \<and>
     leg_no e1 = 1 \<and> home e1 = away e2 \<and> away e1 = home e2 \<and>
     home_cc e1 = away_cc e2 \<and> away_cc e1 = home_cc e2 \<and>
     season_page e1 = season_page e2 \<and> cup e1 = cup e2 \<and> comp_stage e1 = comp_stage e2"

definition paired :: "(ustr \<Rightarrow> ustr) \<Rightarrow> int \<Rightarrow> tr set \<Rightarrow> legrow list \<Rightarrow> bool" where
  "paired rc y R rows \<longleftrightarrow>
     (\<forall>i<length rows.
        leg_no (rows ! i) = 2 \<and> (home (rows ! i) \<noteq> [] \<or> away (rows ! i) \<noteq> []) \<longrightarrow>
        0 < i \<and> follows_first rc y R (rows ! (i - 1)) (rows ! i))"

section \<open>Example rows\<close>

text \<open>Cells and rows for the concrete inputs of the theorems below.\<close>

definition plain_td :: "string \<Rightarrow> td" where
  "plain_td s = \<lparr>td_text = ascii s, td_colspan = None, td_bold = False\<rparr>"

definition bold_td :: "string \<Rightarrow> td" where
  "bold_td s = \<lparr>td_text = ascii s, td_colspan = None, td_bold = True\<rparr>"

definition data_tr :: "td list \<Rightarrow> tr" where
  "data_tr cells = \<lparr>tr_th = None, tr_tds = cells\<rparr>"

definition cup_tr :: "string \<Rightarrow> tr" where
  "cup_tr s =
     \<lparr>tr_th = Some \<lparr>th_cupheader = Some (ascii s), th_roundheader = None\<rparr>, tr_tds = []\<rparr>"

definition round_tr :: "string \<Rightarrow> tr" where
  "round_tr s =
     \<lparr>tr_th = Some \<lparr>th_cupheader = None, th_roundheader = Some (ascii s)\<rparr>, tr_tds = []\<rparr>"

text \<open>
  A page with one competition header and one tie of two legs, the first team in bold;
  and a page whose only data row has no first team.
\<close>

definition page_two_legs :: "tr list list" where
  "page_two_legs =
     [[cup_tr ''Champions League'',
       data_tr [bold_td ''Milan'', plain_td ''Ita'', plain_td ''Ajax'', plain_td ''Ned'',
                plain_td ''2-1'', plain_td ''0-3'']]]"

definition page_no_home :: "tr list list" where
  "page_no_home =
     [[cup_tr ''Champions League'',
       data_tr [plain_td [], plain_td [], plain_td ''Ajax'', plain_td ''Ned'',
                plain_td ''1-0'', plain_td []]]]"

text \<open>A frame in which only the competition matters.\<close>

definition cup_only :: "string \<Rightarrow> legrow" where
  "cup_only c = \<lparr>season_page = 2000, cup = ascii c, comp_stage = [], leg_no = 1, home = [],
     home_cc = [], away = [], away_cc = [], score = [], goals_home = [], goals_away = [],
     winner = [], two_leg_winner = []\<rparr>"

definition df_cups :: "legrow list" where
  "df_cups = map cup_only [''UEFA Cup'', ''Intertoto Cup'', ''Champions League'',
     ''Cup Winners Cup'', ''UEFA Europa League'']"

section \<open>Facts about texts\<close>

lemmas text_eval =
  ascii_def py_strip_def is_space_def is_digit_def py_upper_def upper_char_def
  py_lower_def lower_char_def

lemma py_strip_fix:
  "dropWhile is_space (py_strip s) = py_strip s \<and>
   dropWhile is_space (rev (py_strip s)) = rev (py_strip s)"
proof -
  define ys where "ys = dropWhile is_space s"
  define t where "t = rev (dropWhile is_space (rev ys))"
  have t: "py_strip s = t"
    by (simp add: py_strip_def t_def ys_def)
  have r: "dropWhile is_space (rev t) = rev t"
    by (simp add: t_def)
  have ys: "ys = t @ rev (takeWhile is_space (rev ys))"
    by (metis rev_append rev_rev_ident t_def takeWhile_dropWhile_id)
  have "dropWhile is_space t = t"
  proof (cases t)
    case Nil
    then show ?thesis by simp
  next
    case (Cons a u)
    then have "hd ys = a"
      using ys by (metis append_Cons list.sel(1))
    moreover have "ys \<noteq> []"
      using ys Cons by auto
    ultimately have "\<not> is_space a"
      unfolding ys_def using hd_dropWhile by metis
    then show ?thesis
      using Cons by simp
  qed
  then show ?thesis
    using r t by simp
qed

lemma py_strip_idem: "py_strip (py_strip s) = py_strip s"
  using py_strip_fix[of s] by (simp add: py_strip_def[of "py_strip s"])

lemma py_strip_Nil: "py_strip [] = []"
  by (simp add: py_strip_def)

lemma str_nat_not_Nil: "str_nat n \<noteq> []"
  by (subst str_nat.simps) simp

section \<open>Canonical competition names\<close>

lemma norm_cup_name_fixed:
  "norm_cup_name EUROPA_LEAGUE = EUROPA_LEAGUE"
  "norm_cup_name CHAMPIONS_LEAGUE = CHAMPIONS_LEAGUE"
  "norm_cup_name CONFERENCE_LEAGUE = CONFERENCE_LEAGUE"
  by (simp_all add: norm_cup_name_def EUROPA_LEAGUE_def CHAMPIONS_LEAGUE_def
      CONFERENCE_LEAGUE_def text_eval)

lemma norm_cup_name_cases:
  "norm_cup_name s = [] \<or> norm_cup_name s = EUROPA_LEAGUE \<or>
   norm_cup_name s = CHAMPIONS_LEAGUE \<or> norm_cup_name s = CONFERENCE_LEAGUE \<or>
   (norm_cup_name s = py_strip s \<and> norm_cup_name (py_strip s) = py_strip s)"
  by (simp add: norm_cup_name_def Let_def py_strip_idem)

lemma norm_cup_name_idem: "norm_cup_name (norm_cup_name s) = norm_cup_name s"
  using norm_cup_name_cases[of s] norm_cup_name_fixed
  by (auto simp: norm_cup_name_def[of "[]"] py_strip_Nil)

lemma norm_cup_name_examples:
  "norm_cup_name (ascii ''UEFA Cup'') = EUROPA_LEAGUE"
  "norm_cup_name (ascii ''UEFA Europa League'') = EUROPA_LEAGUE"
  by (simp_all add: norm_cup_name_def EUROPA_LEAGUE_def text_eval)

text \<open>
  C7, as the code has it. Canonicalisation is idempotent; \<open>UEFA Cup\<close> and
  \<open>UEFA Europa League\<close> both become \<open>EUROPA LEAGUE\<close>; and the rules are read on the
  stripped text in upper case, in this order: it contains \<open>UEFA CUP\<close> or contains
  \<open>EUROPA LEAGUE\<close> or starts with \<open>EUROPA\<close>, then \<open>EUROPA LEAGUE\<close>; it contains
  \<open>CHAMPION\<close>, then \<open>CHAMPIONS LEAGUE\<close>; it contains \<open>CONFERENCE\<close>, then
  \<open>CONFERENCE LEAGUE\<close>; otherwise the stripped text itself.
\<close>

theorem norm_cup_name_canonical:
  "norm_cup_name (norm_cup_name s) = norm_cup_name s \<and>
   norm_cup_name (ascii ''UEFA Cup'') = EUROPA_LEAGUE \<and>
   norm_cup_name (ascii ''UEFA Europa League'') = EUROPA_LEAGUE \<and>
   norm_cup_name s =
     (let su = py_upper (py_strip s) in
      if contains su (ascii ''UEFA CUP'') \<or> contains su (ascii ''EUROPA LEAGUE'') \<or>
         startswith su (ascii ''EUROPA'')
      then EUROPA_LEAGUE
      else if contains su (ascii ''CHAMPION'') then CHAMPIONS_LEAGUE
      else if contains su (ascii ''CONFERENCE'') then CONFERENCE_LEAGUE
      else py_strip s)"
proof -
  have "py_strip s = [] \<Longrightarrow> \<not> contains (py_upper (py_strip s)) (ascii ''UEFA CUP'') \<and>
      \<not> contains (py_upper (py_strip s)) (ascii ''EUROPA LEAGUE'') \<and>
      \<not> startswith (py_upper (py_strip s)) (ascii ''EUROPA'') \<and>
      \<not> contains (py_upper (py_strip s)) (ascii ''CHAMPION'') \<and>
      \<not> contains (py_upper (py_strip s)) (ascii ''CONFERENCE'')"
    by (simp add: py_upper_def ascii_def)
  moreover have "py_upper (py_strip s) = ascii ''UEFA CUP'' \<Longrightarrow>
      contains (py_upper (py_strip s)) (ascii ''UEFA CUP'')"
    by (simp add: ascii_def)
  ultimately have rules: "norm_cup_name s =
     (let su = py_upper (py_strip s) in
      if contains su (ascii ''UEFA CUP'') \<or> contains su (ascii ''EUROPA LEAGUE'') \<or>
         startswith su (ascii ''EUROPA'')
      then EUROPA_LEAGUE
      else if contains su (ascii ''CHAMPION'') then CHAMPIONS_LEAGUE
      else if contains su (ascii ''CONFERENCE'') then CONFERENCE_LEAGUE
      else py_strip s)"
    unfolding norm_cup_name_def Let_def by auto
  show ?thesis
    by (intro conjI norm_cup_name_idem norm_cup_name_examples rules)
qed

text \<open>
  C7 as it is stated lists the rules without the one on \<open>EUROPA LEAGUE\<close> inside the
  name. None of the rules it lists applies to \<open>UEFA Europa League\<close>, and yet the name
  is not left unchanged.
\<close>

theorem norm_cup_name_rules_counterexample:
  "\<not> contains (py_upper (ascii ''UEFA Europa League'')) (ascii ''UEFA CUP'') \<and>
   \<not> startswith (py_upper (ascii ''UEFA Europa League'')) (ascii ''EUROPA'') \<and>
   \<not> contains (py_upper (ascii ''UEFA Europa League'')) (ascii ''CHAMPION'') \<and>
   \<not> contains (py_upper (ascii ''UEFA Europa League'')) (ascii ''CONFERENCE'') \<and>
   norm_cup_name (ascii ''UEFA Europa League'') \<noteq> ascii ''UEFA Europa League''"
  by (simp add: norm_cup_name_def EUROPA_LEAGUE_def text_eval)

section \<open>The table walker\<close>

lemmas example_eval = plain_td_def bold_td_def data_tr_def cup_tr_def round_tr_def

lemmas walker_eval =
  parse_page_def parse_tr_def header_of_def emit_legs_def norm_text_def has_colspan_def Let_def

lemma str_nat_small: "n < 10 \<Longrightarrow> str_nat n = [48 + n]"
  by (subst str_nat.simps) simp

lemma page_two_legs_rows:
  "parse_page (\<lambda>s. s) 2000 page_two_legs =
  [\<lparr>season_page = 2000, cup = ascii ''Champions League'', comp_stage = [], leg_no = 1,
    home = ascii ''Milan'', home_cc = ascii ''Ita'', away = ascii ''Ajax'',
    away_cc = ascii ''Ned'', score = ascii ''2-1'', goals_home = ascii ''2'',
    goals_away = ascii ''1'', winner = [], two_leg_winner = ascii ''Milan''\<rparr>,
   \<lparr>season_page = 2000, cup = ascii ''Champions League'', comp_stage = [], leg_no = 2,
    home = ascii ''Ajax'', home_cc = ascii ''Ned'', away = ascii ''Milan'',
    away_cc = ascii ''Ita'', score = ascii ''3-0'', goals_home = ascii ''3'',
    goals_away = ascii ''0'', winner = [], two_leg_winner = []\<rparr>]"
  by (simp add: page_two_legs_def walker_eval example_eval text_eval parse_score_def
      int_digits_def str_nat_small)

lemma page_no_home_rows:
  "parse_page (\<lambda>s. s) 2000 page_no_home =
  [\<lparr>season_page = 2000, cup = ascii ''Champions League'', comp_stage = [], leg_no = 1,
    home = [], home_cc = [], away = ascii ''Ajax'', away_cc = ascii ''Ned'',
    score = ascii ''1-0'', goals_home = ascii ''1'', goals_away = ascii ''0'', winner = [],
    two_leg_winner = []\<rparr>]"
  by (simp add: page_no_home_def walker_eval example_eval text_eval parse_score_def
      int_digits_def str_nat_small)

lemma parse_table_matches_append:
  "parse_table_matches rc (xs @ ys) c s y acc =
     (case parse_table_matches rc xs c s y acc of
        (ctx, acc') \<Rightarrow> parse_table_matches rc ys (fst ctx) (snd ctx) y acc')"
  by (induction xs arbitrary: c s acc) (auto split: prod.splits)

lemma parse_tables_concat:
  "parse_tables rc y tables ctx acc =
     parse_table_matches rc (concat tables) (fst ctx) (snd ctx) y acc"
  by (induction tables arbitrary: ctx acc)
     (auto simp: parse_table_matches_append split: prod.splits)

text \<open>
  C10. A row that is no header and has one, two or three cells appends no row, leaves
  the competition and the stage as they are, and the walk goes on with the next row;
  a row that appends a row has four cells or more.
\<close>

theorem short_row_emits_nothing:
  "(header_of r = None \<and> 1 \<le> length (tr_tds r) \<and> length (tr_tds r) \<le> 3 \<longrightarrow>
      parse_tr rc y r ctx = (ctx, []) \<and>
      parse_table_matches rc (r # rs) (fst ctx) (snd ctx) y acc =
        parse_table_matches rc rs (fst ctx) (snd ctx) y acc) \<and>
   (snd (parse_tr rc y r ctx) \<noteq> [] \<longrightarrow> 4 \<le> length (tr_tds r))"
  by (auto simp: parse_tr_def Let_def split: option.splits header.splits)

theorem short_row_emits_nothing_witness:
  "parse_tr (\<lambda>s. s) 2000 (data_tr [plain_td ''Ajax'', plain_td ''Ned'', plain_td ''2-1''])
     (ascii ''UEFA Cup'', ascii ''Final'') = ((ascii ''UEFA Cup'', ascii ''Final''), []) \<and>
   snd (parse_tr (\<lambda>s. s) 2000
     (data_tr [plain_td ''Ajax'', plain_td ''Ned'', plain_td ''Milan'', plain_td ''Ita''])
     (ascii ''UEFA Cup'', ascii ''Final'')) \<noteq> []"
  using short_row_emits_nothing[of
      "data_tr [plain_td ''Ajax'', plain_td ''Ned'', plain_td ''2-1'']" "\<lambda>s. s" 2000
      "(ascii ''UEFA Cup'', ascii ''Final'')"]
  by (simp add: walker_eval example_eval text_eval)

text \<open>
  C4, as the code has it. The context is scoped per page, not per table: the walk of
  the first table of a page starts with the empty competition and stage, and each
  later table starts with the context the table before it ended with, so that the rows
  of a page are those of one table made of the rows of all its tables. A competition
  header sets the competition and clears the stage; a stage header sets the stage and
  leaves the competition.
\<close>

theorem context_scoped_per_page:
  "parse_page rc y tables = snd (parse_table_matches rc (concat tables) [] [] y []) \<and>
   (header_of r = Some (CupHeader t) \<longrightarrow>
      parse_tr rc y r (c, s) = ((norm_text rc t, []), [])) \<and>
   (header_of r = Some (RoundHeader t) \<longrightarrow>
      parse_tr rc y r (c, s) = ((c, norm_text rc t), []))"
  by (simp add: parse_page_def parse_tables_concat parse_tr_def)

theorem context_scoped_per_page_witness:
  "parse_tr (\<lambda>s. s) 2000 (cup_tr ''UEFA Cup'') (ascii ''Intertoto'', ascii ''Final'') =
     ((ascii ''UEFA Cup'', []), []) \<and>
   parse_tr (\<lambda>s. s) 2000 (round_tr ''Round 1'') (ascii ''UEFA Cup'', ascii ''Final'') =
     ((ascii ''UEFA Cup'', ascii ''Round 1''), [])"
  using context_scoped_per_page[of "\<lambda>s. s" 2000 "[]" "cup_tr ''UEFA Cup''" "ascii ''UEFA Cup''"
      "ascii ''Intertoto''" "ascii ''Final''"]
    context_scoped_per_page[of "\<lambda>s. s" 2000 "[]" "round_tr ''Round 1''" "ascii ''Round 1''"
      "ascii ''UEFA Cup''" "ascii ''Final''"]
  by (simp add: header_of_def example_eval norm_text_def Let_def text_eval)

text \<open>
  C4 as it is stated fails: on a page of two tables, the first with a competition
  header only, the row of the second table is tagged with that competition, whereas a
  walk that started in the empty context would give it the empty competition.
\<close>

theorem context_per_table_counterexample:
  "map cup (parse_page (\<lambda>s. s) 2000
     [[cup_tr ''UEFA Cup''],
      [data_tr [plain_td ''Ajax'', plain_td ''Ned'', plain_td ''Milan'', plain_td ''Ita'',
                plain_td ''2-1'', plain_td []]]]) = [ascii ''UEFA Cup''] \<and>
   map cup (snd (parse_table_matches (\<lambda>s. s)
      [data_tr [plain_td ''Ajax'', plain_td ''Ned'', plain_td ''Milan'', plain_td ''Ita'',
                plain_td ''2-1'', plain_td []]] [] [] 2000 [])) = [[]]"
  by (simp add: walker_eval example_eval text_eval)

section \<open>The legs of a data row\<close>

text \<open>
  C1. For a data row of six cells or more with team names \<open>A\<close> and \<open>B\<close>, one of them
  not empty, and leg texts \<open>L1\<close> and \<open>L2\<close>: the first row has home \<open>A\<close>, away \<open>B\<close>, the
  text and the goals of leg 1. If \<open>L2\<close> is empty there is no other row; otherwise there
  is exactly one more, with home \<open>B\<close>, away \<open>A\<close>, the country codes swapped, the printed
  away figure of leg 2 as home goals and the printed home figure as away goals, and as
  score the two swapped figures joined by a hyphen when \<open>L2\<close> parses, \<open>L2\<close> itself
  when it does not.
\<close>

theorem leg_swap:
  assumes "header_of r = None" and "6 \<le> length (tr_tds r)"
    and "A = norm_text rc (td_text (tr_tds r ! 0))"
    and "B = norm_text rc (td_text (tr_tds r ! 2))"
    and "L1 = norm_text rc (td_text (tr_tds r ! 4))"
    and "L2 = norm_text rc (td_text (tr_tds r ! 5))"
    and "A \<noteq> [] \<or> B \<noteq> []"
    and "rows = snd (parse_tr rc y r ctx)"
  shows "rows \<noteq> [] \<and> leg_no (rows ! 0) = 1 \<and> home (rows ! 0) = A \<and> away (rows ! 0) = B \<and>
     score (rows ! 0) = L1 \<and>
     goals_home (rows ! 0) = (case parse_score L1 of Some l \<Rightarrow> str_nat (fst l) | None \<Rightarrow> []) \<and>
     goals_away (rows ! 0) = (case parse_score L1 of Some l \<Rightarrow> str_nat (snd l) | None \<Rightarrow> []) \<and>
     (L2 = [] \<longrightarrow> length rows = 1) \<and>
     (L2 \<noteq> [] \<longrightarrow> length rows = 2 \<and> leg_no (rows ! 1) = 2 \<and>
        home (rows ! 1) = B \<and> away (rows ! 1) = A \<and>
        home_cc (rows ! 1) = away_cc (rows ! 0) \<and> away_cc (rows ! 1) = home_cc (rows ! 0) \<and>
        goals_home (rows ! 1) =
          (case parse_score L2 of Some l \<Rightarrow> str_nat (snd l) | None \<Rightarrow> []) \<and>
        goals_away (rows ! 1) =
          (case parse_score L2 of Some l \<Rightarrow> str_nat (fst l) | None \<Rightarrow> []) \<and>
        score (rows ! 1) =
          (case parse_score L2 of
             Some l \<Rightarrow> str_nat (snd l) @ ascii ''-'' @ str_nat (fst l)
           | None \<Rightarrow> L2))"
proof -
  have len: "\<not> length (tr_tds r) = 1" "tr_tds r \<noteq> []"
    using assms(2) by auto
  have rows: "rows = emit_legs y (fst ctx) (snd ctx) A
      (norm_text rc (td_text (tr_tds r ! 1))) B (norm_text rc (td_text (tr_tds r ! 3)))
      L1 L2 (td_bold (tr_tds r ! 0)) (td_bold (tr_tds r ! 2))"
    using assms(1,2) len by (simp add: assms(3-6,8) parse_tr_def Let_def)
  show ?thesis
    using assms(7) unfolding rows emit_legs_def Let_def
    by (auto simp: str_nat_not_Nil split: option.splits)
qed

theorem leg_swap_witness:
  "(let rows = snd (parse_tr (\<lambda>s. s) 2000
       (data_tr [plain_td ''A'', plain_td ''X'', plain_td ''B'', plain_td ''Y'',
                 plain_td ''2-1'', plain_td ''0-3''])
       (ascii ''UEFA Cup'', ascii ''Final''))
    in length rows = 2 \<and>
       home (rows ! 0) = ascii ''A'' \<and> away (rows ! 0) = ascii ''B'' \<and>
       score (rows ! 0) = ascii ''2-1'' \<and>
       goals_home (rows ! 0) = ascii ''2'' \<and> goals_away (rows ! 0) = ascii ''1'' \<and>
       home (rows ! 1) = ascii ''B'' \<and> away (rows ! 1) = ascii ''A'' \<and>
       goals_home (rows ! 1) = ascii ''3'' \<and> goals_away (rows ! 1) = ascii ''0'' \<and>
       score (rows ! 1) = ascii ''3-0'')"
proof -
  let ?r = "data_tr [plain_td ''A'', plain_td ''X'', plain_td ''B'', plain_td ''Y'',
                 plain_td ''2-1'', plain_td ''0-3'']"
  have nt: "norm_text (\<lambda>s. s) (td_text (tr_tds ?r ! 0)) = ascii ''A''"
    "norm_text (\<lambda>s. s) (td_text (tr_tds ?r ! 2)) = ascii ''B''"
    "norm_text (\<lambda>s. s) (td_text (tr_tds ?r ! 4)) = ascii ''2-1''"
    "norm_text (\<lambda>s. s) (td_text (tr_tds ?r ! 5)) = ascii ''0-3''"
    by (simp_all add: example_eval norm_text_def Let_def text_eval)
  have ps: "parse_score [48, 45, 51] = Some (0, 3)" "parse_score [50, 45, 49] = Some (2, 1)"
    by (simp_all add: parse_score_def Let_def text_eval int_digits_def)
  have h: "header_of ?r = None" "6 \<le> length (tr_tds ?r)"
    by (simp_all add: header_of_def example_eval)
  define rows where
    "rows = snd (parse_tr (\<lambda>s. s) 2000 ?r (ascii ''UEFA Cup'', ascii ''Final''))"
  have "ascii ''A'' \<noteq> [] \<or> ascii ''B'' \<noteq> []"
    by (simp add: ascii_def)
  note t = leg_swap[OF h nt[symmetric] this rows_def]
  show ?thesis
    unfolding Let_def rows_def[symmetric] using t
    by (simp add: ps str_nat_small ascii_def)
qed

text \<open>
  C3 as it is stated fails at a row of six cells whose four team cells are empty and
  whose two leg cells hold scores: the guard of the first leg, that one team name is
  not empty, fails, the guard of the second leg, that its text is not empty, holds,
  and the page yields one row, a second leg with no first leg.
\<close>

theorem second_leg_without_first:
  "map leg_no (parse_page (\<lambda>s. s) 2000
     [[data_tr [plain_td [], plain_td [], plain_td [], plain_td [],
                plain_td ''1-0'', plain_td ''2-1'']]]) = [2]"
  by (simp add: walker_eval example_eval text_eval)

lemma parse_tr_shape:
  assumes "out = snd (parse_tr rc y r ctx)"
  shows "out = [] \<or> (\<exists>e1. out = [e1] \<and> leg_no e1 = 1) \<or>
    (\<exists>e2. out = [e2] \<and> home e2 = [] \<and> away e2 = []) \<or>
    (\<exists>e1 e2. out = [e1, e2] \<and> leg_no e1 = 1 \<and> follows_first rc y {r} e1 e2)"
proof (cases "header_of r = None \<and> 6 \<le> length (tr_tds r)")
  case True
  define t1 where "t1 = norm_text rc (td_text (tr_tds r ! 0))"
  define t2 where "t2 = norm_text rc (td_text (tr_tds r ! 2))"
  define L2 where "L2 = norm_text rc (td_text (tr_tds r ! 5))"
  have out: "out = emit_legs y (fst ctx) (snd ctx) t1
      (norm_text rc (td_text (tr_tds r ! 1))) t2 (norm_text rc (td_text (tr_tds r ! 3)))
      (norm_text rc (td_text (tr_tds r ! 4))) L2
      (td_bold (tr_tds r ! 0)) (td_bold (tr_tds r ! 2))"
    using True unfolding assms t1_def t2_def L2_def by (auto simp: parse_tr_def Let_def)
  obtain e1 e2 where
    o: "out = (if t1 \<noteq> [] \<or> t2 \<noteq> [] then [e1] else []) @ (if L2 \<noteq> [] then [e2] else [])"
    and f: "leg_no e1 = 1" "home e2 = t2" "away e2 = t1" "home e1 = t1" "away e1 = t2"
      "home_cc e1 = away_cc e2" "away_cc e1 = home_cc e2"
      "season_page e1 = season_page e2" "cup e1 = cup e2" "comp_stage e1 = comp_stage e2"
      "goals_home e2 = (case parse_score L2 of Some l \<Rightarrow> str_nat (snd l) | None \<Rightarrow> [])"
      "goals_away e2 = (case parse_score L2 of Some l \<Rightarrow> str_nat (fst l) | None \<Rightarrow> [])"
    unfolding out emit_legs_def Let_def by simp
  show ?thesis
  proof (cases "t1 \<noteq> [] \<or> t2 \<noteq> []")
    case named: True
    show ?thesis
    proof (cases "L2 \<noteq> []")
      case True
      then have oo: "out = [e1, e2]"
        using o named by simp
      have "\<exists>ctx'. snd (parse_tr rc y r ctx') = [e1, e2]"
        using assms oo by (intro exI[of _ ctx]) simp
      then have "follows_first rc y {r} e1 e2"
        unfolding follows_first_def using f \<open>header_of r = None \<and> 6 \<le> length (tr_tds r)\<close>
        by (simp add: L2_def)
      then show ?thesis
        using oo f(1) by blast
    next
      case False
      then have "out = [e1]" using o named by simp
      then show ?thesis using f(1) by blast
    qed
  next
    case unnamed: False
    show ?thesis
    proof (cases "L2 \<noteq> []")
      case True
      then have "out = [e2]" using o unnamed by simp
      moreover have "home e2 = [] \<and> away e2 = []" using f unnamed by simp
      ultimately show ?thesis by blast
    next
      case False
      then have "out = []" using o unnamed by simp
      then show ?thesis by blast
    qed
  qed
next
  case False
  then have "out = [] \<or> (\<exists>e1. out = [e1] \<and> leg_no e1 = 1)"
    unfolding assms
    by (auto simp: parse_tr_def emit_legs_def Let_def split: option.splits header.splits)
  then show ?thesis by blast
qed

lemma paired_append:
  assumes "paired rc y R acc" and "r \<in> R" and "out = snd (parse_tr rc y r ctx)"
  shows "paired rc y R (acc @ out)"
proof -
  have mono: "\<And>e1 e2. follows_first rc y {r} e1 e2 \<Longrightarrow> follows_first rc y R e1 e2"
    using assms(2) unfolding follows_first_def by blast
  show ?thesis
    unfolding paired_def
  proof (intro allI impI)
    fix i
    assume i: "i < length (acc @ out)"
      and l: "leg_no ((acc @ out) ! i) = 2 \<and>
        (home ((acc @ out) ! i) \<noteq> [] \<or> away ((acc @ out) ! i) \<noteq> [])"
    show "0 < i \<and> follows_first rc y R ((acc @ out) ! (i - 1)) ((acc @ out) ! i)"
    proof (cases "i < length acc")
      case True
      then have h: "0 < i" "follows_first rc y R (acc ! (i - 1)) (acc ! i)"
        using assms(1) l unfolding paired_def by (simp_all add: nth_append)
      have "i - 1 < length acc"
        using True by simp
      then show ?thesis
        using True h by (simp add: nth_append)
    next
      case False
      define j where "j = i - length acc"
      have j: "j < length out" "(acc @ out) ! i = out ! j"
        using False i by (simp_all add: j_def nth_append)
      from parse_tr_shape[OF assms(3)] j l
      obtain e1 e2 where o: "out = [e1, e2]" "leg_no e1 = 1" "follows_first rc y {r} e1 e2"
        by (auto simp: nth_Cons' split: if_splits)
      have "j = 1"
        using j l o by (auto simp: nth_Cons' split: if_splits)
      then have i': "i = length acc + 1"
        using False by (simp add: j_def)
      show ?thesis
        unfolding i' using mono[OF o(3)] by (simp add: nth_append o(1))
    qed
  qed
qed

lemma paired_walk:
  "paired rc y R acc \<Longrightarrow> set trs \<subseteq> R \<Longrightarrow>
     paired rc y R (snd (parse_table_matches rc trs c s y acc))"
proof (induction trs arbitrary: c s acc)
  case Nil
  then show ?case by simp
next
  case (Cons r rs)
  obtain ctx out where p: "parse_tr rc y r (c, s) = (ctx, out)"
    by (cases "parse_tr rc y r (c, s)") auto
  have "paired rc y R (acc @ out)"
    using paired_append[OF Cons.prems(1), of r out "(c, s)"] Cons.prems(2) p by simp
  from Cons.IH[OF this, of "fst ctx" "snd ctx"] Cons.prems(2) show ?case
    by (simp add: p)
qed

lemma paired_page: "paired rc y (set (concat tables)) (parse_page rc y tables)"
proof -
  have "paired rc y (set (concat tables)) []"
    by (simp add: paired_def)
  from paired_walk[OF this subset_refl] show ?thesis
    by (simp add: parse_page_def parse_tables_concat)
qed

text \<open>
  C3, as the code has it, in two parts. In the rows of a page, every second leg that
  names a team (its home or its away name is not empty) stands right after a first leg
  that the same source row gave, a row of six cells or more: the two rows are all that
  this source row gave, the first leg has the home and away team and country codes of
  the second swapped and the same year, competition and stage, and the goals of the
  second leg are the printed figures of the second leg, swapped. And a data row (no
  header, six cells or more: a row of four or five cells has no second-leg text) whose
  two team names are both empty and whose second-leg text is not empty gives a second
  leg alone, in any context: one row, with leg number 2, no team name, the year of the
  page, the competition and stage of the context and the printed figures of the second
  leg, swapped, as its goals; the context is unchanged.
\<close>

theorem second_leg_follows_first:
  assumes "rows = parse_page rc y tables" and "out = snd (parse_tr rc y r0 ctx0)"
  shows "(i < length rows \<and> leg_no (rows ! i) = 2 \<and>
      (home (rows ! i) \<noteq> [] \<or> away (rows ! i) \<noteq> []) \<longrightarrow>
    0 < i \<and>
    (\<exists>r\<in>set (concat tables). \<exists>ctx.
        snd (parse_tr rc y r ctx) = [rows ! (i - 1), rows ! i] \<and> 6 \<le> length (tr_tds r) \<and>
        goals_home (rows ! i) =
          (case parse_score (norm_text rc (td_text (tr_tds r ! 5))) of
             Some l \<Rightarrow> str_nat (snd l) | None \<Rightarrow> []) \<and>
        goals_away (rows ! i) =
          (case parse_score (norm_text rc (td_text (tr_tds r ! 5))) of
             Some l \<Rightarrow> str_nat (fst l) | None \<Rightarrow> [])) \<and>
    leg_no (rows ! (i - 1)) = 1 \<and>
    home (rows ! (i - 1)) = away (rows ! i) \<and> away (rows ! (i - 1)) = home (rows ! i) \<and>
    home_cc (rows ! (i - 1)) = away_cc (rows ! i) \<and>
    away_cc (rows ! (i - 1)) = home_cc (rows ! i) \<and>
    season_page (rows ! (i - 1)) = season_page (rows ! i) \<and>
    cup (rows ! (i - 1)) = cup (rows ! i) \<and>
    comp_stage (rows ! (i - 1)) = comp_stage (rows ! i)) \<and>
   (header_of r0 = None \<and> 6 \<le> length (tr_tds r0) \<and>
      norm_text rc (td_text (tr_tds r0 ! 0)) = [] \<and>
      norm_text rc (td_text (tr_tds r0 ! 2)) = [] \<and>
      norm_text rc (td_text (tr_tds r0 ! 5)) \<noteq> [] \<longrightarrow>
    length out = 1 \<and> leg_no (out ! 0) = 2 \<and> home (out ! 0) = [] \<and> away (out ! 0) = [] \<and>
    season_page (out ! 0) = y \<and> cup (out ! 0) = fst ctx0 \<and> comp_stage (out ! 0) = snd ctx0 \<and>
    goals_home (out ! 0) =
      (case parse_score (norm_text rc (td_text (tr_tds r0 ! 5))) of
         Some l \<Rightarrow> str_nat (snd l) | None \<Rightarrow> []) \<and>
    goals_away (out ! 0) =
      (case parse_score (norm_text rc (td_text (tr_tds r0 ! 5))) of
         Some l \<Rightarrow> str_nat (fst l) | None \<Rightarrow> []) \<and>
    fst (parse_tr rc y r0 ctx0) = ctx0)"
proof (intro conjI impI)
  assume "i < length rows \<and> leg_no (rows ! i) = 2 \<and>
      (home (rows ! i) \<noteq> [] \<or> away (rows ! i) \<noteq> [])"
  then have "0 < i \<and> follows_first rc y (set (concat tables)) (rows ! (i - 1)) (rows ! i)"
    using paired_page[of rc y tables] unfolding paired_def assms(1) by blast
  then show "0 < i"
    and "\<exists>r\<in>set (concat tables). \<exists>ctx.
        snd (parse_tr rc y r ctx) = [rows ! (i - 1), rows ! i] \<and> 6 \<le> length (tr_tds r) \<and>
        goals_home (rows ! i) =
          (case parse_score (norm_text rc (td_text (tr_tds r ! 5))) of
             Some l \<Rightarrow> str_nat (snd l) | None \<Rightarrow> []) \<and>
        goals_away (rows ! i) =
          (case parse_score (norm_text rc (td_text (tr_tds r ! 5))) of
             Some l \<Rightarrow> str_nat (fst l) | None \<Rightarrow> [])"
    and "leg_no (rows ! (i - 1)) = 1"
    and "home (rows ! (i - 1)) = away (rows ! i)" and "away (rows ! (i - 1)) = home (rows ! i)"
    and "home_cc (rows ! (i - 1)) = away_cc (rows ! i)"
    and "away_cc (rows ! (i - 1)) = home_cc (rows ! i)"
    and "season_page (rows ! (i - 1)) = season_page (rows ! i)"
    and "cup (rows ! (i - 1)) = cup (rows ! i)"
    and "comp_stage (rows ! (i - 1)) = comp_stage (rows ! i)"
    unfolding follows_first_def by blast+
next
  assume a: "header_of r0 = None \<and> 6 \<le> length (tr_tds r0) \<and>
      norm_text rc (td_text (tr_tds r0 ! 0)) = [] \<and>
      norm_text rc (td_text (tr_tds r0 ! 2)) = [] \<and>
      norm_text rc (td_text (tr_tds r0 ! 5)) \<noteq> []"
  then have ne: "tr_tds r0 \<noteq> []" "length (tr_tds r0) \<noteq> 1"
    by auto
  have p: "parse_tr rc y r0 ctx0 = (ctx0,
      emit_legs y (fst ctx0) (snd ctx0) [] (norm_text rc (td_text (tr_tds r0 ! 1))) []
        (norm_text rc (td_text (tr_tds r0 ! 3))) (norm_text rc (td_text (tr_tds r0 ! 4)))
        (norm_text rc (td_text (tr_tds r0 ! 5)))
        (td_bold (tr_tds r0 ! 0)) (td_bold (tr_tds r0 ! 2)))"
    using a ne by (simp add: parse_tr_def Let_def)
  show "length out = 1" "leg_no (out ! 0) = 2" "home (out ! 0) = []" "away (out ! 0) = []"
    "season_page (out ! 0) = y" "cup (out ! 0) = fst ctx0" "comp_stage (out ! 0) = snd ctx0"
    "goals_home (out ! 0) =
      (case parse_score (norm_text rc (td_text (tr_tds r0 ! 5))) of
         Some l \<Rightarrow> str_nat (snd l) | None \<Rightarrow> [])"
    "goals_away (out ! 0) =
      (case parse_score (norm_text rc (td_text (tr_tds r0 ! 5))) of
         Some l \<Rightarrow> str_nat (fst l) | None \<Rightarrow> [])"
    "fst (parse_tr rc y r0 ctx0) = ctx0"
    using a unfolding assms(2) p by (simp_all add: emit_legs_def Let_def)
qed

theorem second_leg_follows_first_witness:
  "(let rows = parse_page (\<lambda>s. s) 2000 page_two_legs;
        out = snd (parse_tr (\<lambda>s. s) 2000
                (data_tr [plain_td [], plain_td [], plain_td [], plain_td [],
                          plain_td ''1-0'', plain_td ''2-1''])
                (ascii ''UEFA Cup'', ascii ''Final''))
    in length rows = 2 \<and> leg_no (rows ! 1) = 2 \<and> home (rows ! 1) = ascii ''Ajax'' \<and>
       leg_no (rows ! 0) = 1 \<and> home (rows ! 0) = away (rows ! 1) \<and>
       away (rows ! 0) = home (rows ! 1) \<and> cup (rows ! 0) = cup (rows ! 1) \<and>
       length out = 1 \<and> leg_no (out ! 0) = 2 \<and> home (out ! 0) = [] \<and> away (out ! 0) = [] \<and>
       cup (out ! 0) = ascii ''UEFA Cup'' \<and> comp_stage (out ! 0) = ascii ''Final'' \<and>
       goals_home (out ! 0) = ascii ''1'' \<and> goals_away (out ! 0) = ascii ''2'')"
proof -
  let ?r = "data_tr [plain_td [], plain_td [], plain_td [], plain_td [],
                     plain_td ''1-0'', plain_td ''2-1'']"
  define rows where "rows = parse_page (\<lambda>s. s) 2000 page_two_legs"
  define out where
    "out = snd (parse_tr (\<lambda>s. s) 2000 ?r (ascii ''UEFA Cup'', ascii ''Final''))"
  have p: "1 < length rows \<and> leg_no (rows ! 1) = 2 \<and>
      (home (rows ! 1) \<noteq> [] \<or> away (rows ! 1) \<noteq> [])"
    "length rows = 2" "home (rows ! 1) = ascii ''Ajax''"
    unfolding rows_def page_two_legs_rows by (simp_all add: ascii_def)
  have nt: "norm_text (\<lambda>s. s) (td_text (tr_tds ?r ! 0)) = []"
    "norm_text (\<lambda>s. s) (td_text (tr_tds ?r ! 2)) = []"
    "norm_text (\<lambda>s. s) (td_text (tr_tds ?r ! 5)) = [50, 45, 49]"
    by (simp_all add: example_eval norm_text_def Let_def text_eval)
  have ps: "parse_score [50, 45, 49] = Some (2, 1)"
    by (simp add: parse_score_def Let_def text_eval int_digits_def)
  have h: "header_of ?r = None" "6 \<le> length (tr_tds ?r)"
    by (simp_all add: header_of_def example_eval)
  note t = second_leg_follows_first[OF rows_def out_def, of 1]
  show ?thesis
    unfolding Let_def rows_def[symmetric] out_def[symmetric]
    using t p h by (simp add: nt ps str_nat_small ascii_def)
qed

section \<open>Properties of the fact table\<close>

lemma fold_upd_map_of:
  "fold (\<lambda>row m. m(kf row \<mapsto> vf row)) rows m0 =
     m0 ++ map_of (rev (map (\<lambda>r. (kf r, vf r)) rows))"
  by (induction rows arbitrary: m0)
     (auto simp: fun_eq_iff map_add_def split: option.splits)

lemma club_map_eq: "club_map rows = map_of (rev (map (\<lambda>r. (snd r, fst r)) rows))"
  by (simp add: club_map_def fold_upd_map_of)

lemma club_map_Some: "club_map rows k = Some w \<Longrightarrow> (w, k) \<in> set rows"
  by (auto simp: club_map_eq dest!: map_of_SomeD)

lemma clubs_not_Nil: "[] \<notin> set (clubs df)"
  by (simp add: clubs_def)

lemma dim_clubs_names: "(w, k) \<in> set (dim_clubs df) \<Longrightarrow> k \<in> set (clubs df)"
  unfolding dim_clubs_def by (auto dest: set_zip_rightD)

lemma club_map_Nil: "club_map (dim_clubs df) [] = None"
  using club_map_Some[of "dim_clubs df" "[]"] dim_clubs_names[of _ "[]" df] clubs_not_Nil[of df]
  by (cases "club_map (dim_clubs df) []") auto

lemma py_strip_not_Nil: "py_strip s \<noteq> [] \<Longrightarrow> s \<noteq> []"
  by (auto simp: py_strip_def)

lemma fact_table_lengths:
  "length (fact_season_page (fact_table cup_m stage_m club_m df)) = length df"
  "length (fact_leg_no (fact_table cup_m stage_m club_m df)) = length df"
  "length (fact_cup_id (fact_table cup_m stage_m club_m df)) = length df"
  "length (fact_comp_stage_id (fact_table cup_m stage_m club_m df)) = length df"
  "length (fact_home_club_id (fact_table cup_m stage_m club_m df)) = length df"
  "length (fact_away_club_id (fact_table cup_m stage_m club_m df)) = length df"
  "length (fact_home_cc (fact_table cup_m stage_m club_m df)) = length df"
  "length (fact_away_cc (fact_table cup_m stage_m club_m df)) = length df"
  "length (fact_score (fact_table cup_m stage_m club_m df)) = length df"
  "length (fact_goals_home (fact_table cup_m stage_m club_m df)) = length df"
  "length (fact_goals_away (fact_table cup_m stage_m club_m df)) = length df"
  "length (fact_winner (fact_table cup_m stage_m club_m df)) = length df"
  "length (fact_two_leg_winner (fact_table cup_m stage_m club_m df)) = length df"
  by (simp_all add: fact_table_def Let_def)

lemma fact_table_nth:
  assumes "i < length df"
  shows "fact_season_page (fact_table cup_m stage_m club_m df) ! i = season_page (df ! i)"
    "fact_leg_no (fact_table cup_m stage_m club_m df) ! i = Some (leg_no (df ! i))"
    "fact_cup_id (fact_table cup_m stage_m club_m df) ! i =
       cup_m (py_strip (norm_cup_name (cup (df ! i))))"
    "fact_comp_stage_id (fact_table cup_m stage_m club_m df) ! i =
       stage_m (norm_key (comp_stage (df ! i)))"
    "fact_home_club_id (fact_table cup_m stage_m club_m df) ! i =
       club_m (py_strip (home (df ! i)))"
    "fact_away_club_id (fact_table cup_m stage_m club_m df) ! i =
       club_m (py_strip (away (df ! i)))"
    "fact_home_cc (fact_table cup_m stage_m club_m df) ! i = home_cc (df ! i)"
    "fact_away_cc (fact_table cup_m stage_m club_m df) ! i = away_cc (df ! i)"
    "fact_score (fact_table cup_m stage_m club_m df) ! i = score (df ! i)"
    "fact_goals_home (fact_table cup_m stage_m club_m df) ! i = goals_home (df ! i)"
    "fact_goals_away (fact_table cup_m stage_m club_m df) ! i = goals_away (df ! i)"
  using assms by (simp_all add: fact_table_def Let_def)

text \<open>The winner of a row, read off the columns.\<close>

lemma fact_winner_nth:
  assumes "i < length df"
  shows "fact_winner (fact_table cup_m stage_m club_m df) ! i =
    (let gh = to_numeric (goals_home (df ! i)); ga = to_numeric (goals_away (df ! i)) in
     if gh = None \<or> ga = None then []
     else if np_eq gh ga then ascii ''draw''
     else if np_gt gh ga then int64_str (club_m (py_strip (home (df ! i))))
     else int64_str (club_m (py_strip (away (df ! i)))))"
  using assms
  by (auto simp: fact_table_def Let_def np_eq_def np_gt_def np_lt_def split: option.splits)

lemma fact_two_leg_winner_nth:
  assumes "i < length df"
  shows "fact_two_leg_winner (fact_table cup_m stage_m club_m df) ! i =
    (if leg_no (df ! i) = 1 then club_m (py_strip (two_leg_winner (df ! i))) else None)"
  using assms by (simp add: fact_table_def Let_def)

lemma parse_tr_winner_name:
  assumes "e \<in> set (snd (parse_tr rc y r ctx))" and "two_leg_winner e \<noteq> []"
  shows "leg_no e = 1 \<and> 6 \<le> length (tr_tds r) \<and>
    norm_text rc (td_text (tr_tds r ! 5)) \<noteq> [] \<and>
    td_bold (tr_tds r ! 0) \<noteq> td_bold (tr_tds r ! 2) \<and>
    two_leg_winner e =
      norm_text rc (td_text (tr_tds r ! (if td_bold (tr_tds r ! 0) then 0 else 2)))"
  using assms
  by (auto simp: parse_tr_def emit_legs_def Let_def
      split: option.splits header.splits if_splits)

lemma page_two_legs_clubs:
  "dim_clubs (parse_page (\<lambda>s. s) 2000 page_two_legs) =
     [(1, ascii ''Ajax''), (2, ascii ''Milan'')]"
  unfolding page_two_legs_rows by (simp add: dim_clubs_def clubs_def text_eval)

lemma page_no_home_clubs:
  "dim_clubs (parse_page (\<lambda>s. s) 2000 page_no_home) = [(1, ascii ''Ajax'')]"
  unfolding page_no_home_rows by (simp add: dim_clubs_def clubs_def text_eval)

text \<open>
  C9. The fact table has one entry per row of \<open>df\<close> in every column, in the order of
  \<open>df\<close>. Entry \<open>i\<close> of an id column is what the lookup of the name of row \<open>i\<close> gives,
  the missing value when the lookup fails, and the other columns hold the fields of
  row \<open>i\<close> as they are.
\<close>

theorem fact_table_keeps_rows:
  assumes "f = fact_table cup_m stage_m club_m df"
  shows "length (fact_season_page f) = length df \<and> length (fact_leg_no f) = length df \<and>
    length (fact_cup_id f) = length df \<and> length (fact_comp_stage_id f) = length df \<and>
    length (fact_home_club_id f) = length df \<and> length (fact_away_club_id f) = length df \<and>
    length (fact_home_cc f) = length df \<and> length (fact_away_cc f) = length df \<and>
    length (fact_score f) = length df \<and> length (fact_goals_home f) = length df \<and>
    length (fact_goals_away f) = length df \<and> length (fact_winner f) = length df \<and>
    length (fact_two_leg_winner f) = length df \<and>
    (\<forall>i<length df.
       fact_season_page f ! i = season_page (df ! i) \<and>
       fact_leg_no f ! i = Some (leg_no (df ! i)) \<and>
       fact_cup_id f ! i = cup_m (py_strip (norm_cup_name (cup (df ! i)))) \<and>
       fact_comp_stage_id f ! i = stage_m (norm_key (comp_stage (df ! i))) \<and>
       fact_home_club_id f ! i = club_m (py_strip (home (df ! i))) \<and>
       fact_away_club_id f ! i = club_m (py_strip (away (df ! i))) \<and>
       fact_home_cc f ! i = home_cc (df ! i) \<and>
       fact_away_cc f ! i = away_cc (df ! i) \<and>
       fact_score f ! i = score (df ! i) \<and>
       fact_goals_home f ! i = goals_home (df ! i) \<and>
       fact_goals_away f ! i = goals_away (df ! i))"
  unfolding assms by (simp add: fact_table_lengths fact_table_nth)

theorem fact_table_keeps_rows_witness:
  "(let df = parse_page (\<lambda>s. s) 2000 page_no_home;
        f = fact_table Map.empty Map.empty (club_map (dim_clubs df)) df
    in length df = 1 \<and> length (fact_score f) = 1 \<and>
       fact_cup_id f ! 0 = None \<and> fact_comp_stage_id f ! 0 = None \<and>
       fact_home_club_id f ! 0 = None \<and> fact_away_club_id f ! 0 = Some 1 \<and>
       fact_score f ! 0 = ascii ''1-0'' \<and> fact_away_cc f ! 0 = ascii ''Ned'')"
proof -
  define df where "df = parse_page (\<lambda>s. s) 2000 page_no_home"
  define f where "f = fact_table Map.empty Map.empty (club_map (dim_clubs df)) df"
  have len: "length df = 1"
    by (simp add: df_def page_no_home_rows)
  have ids: "club_map (dim_clubs df) (py_strip (home (df ! 0))) = None"
    "club_map (dim_clubs df) (py_strip (away (df ! 0))) = Some 1"
    "score (df ! 0) = ascii ''1-0''" "away_cc (df ! 0) = ascii ''Ned''"
    unfolding df_def page_no_home_clubs unfolding page_no_home_rows
    by (simp_all add: club_map_def text_eval)
  show ?thesis
    unfolding Let_def df_def[symmetric] f_def[symmetric]
    using fact_table_keeps_rows[OF f_def] len ids by simp
qed

text \<open>
  C8. Where the column \<open>two_leg_winner\<close> of the fact table, built with the club ids of
  \<open>df\<close>, holds an id in the entry of a row that a source row \<open>r\<close> gave, that row is a
  first leg, \<open>r\<close> has six cells or more and a second-leg text, exactly one of its two
  team cells is in bold, and the id is that of the name in the bold cell in the club
  dimension.
\<close>

theorem two_leg_winner_only_when_marked:
  assumes "i < length df" and "df ! i \<in> set (snd (parse_tr rc y r ctx))"
    and "fact_two_leg_winner (fact_table cup_m stage_m (club_map (dim_clubs df)) df) ! i =
      Some w"
  shows "leg_no (df ! i) = 1 \<and> 6 \<le> length (tr_tds r) \<and>
    norm_text rc (td_text (tr_tds r ! 5)) \<noteq> [] \<and>
    td_bold (tr_tds r ! 0) \<noteq> td_bold (tr_tds r ! 2) \<and>
    (w, py_strip (norm_text rc
           (td_text (tr_tds r ! (if td_bold (tr_tds r ! 0) then 0 else 2)))))
      \<in> set (dim_clubs df)"
proof -
  have l: "leg_no (df ! i) = 1"
    and c: "club_map (dim_clubs df) (py_strip (two_leg_winner (df ! i))) = Some w"
    using assms(3) by (auto simp: fact_two_leg_winner_nth[OF assms(1)] split: if_splits)
  have "py_strip (two_leg_winner (df ! i)) \<noteq> []"
    using c club_map_Nil[of df] by auto
  then have "two_leg_winner (df ! i) \<noteq> []"
    by (rule py_strip_not_Nil)
  from parse_tr_winner_name[OF assms(2) this] club_map_Some[OF c] show ?thesis
    by simp
qed

theorem two_leg_winner_only_when_marked_witness:
  "(let df = parse_page (\<lambda>s. s) 2000 page_two_legs
    in fact_two_leg_winner (fact_table Map.empty Map.empty (club_map (dim_clubs df)) df) =
         [Some 2, None] \<and>
       leg_no (df ! 0) = 1 \<and> (2, ascii ''Milan'') \<in> set (dim_clubs df))"
proof -
  define df where "df = parse_page (\<lambda>s. s) 2000 page_two_legs"
  let ?r = "data_tr [bold_td ''Milan'', plain_td ''Ita'', plain_td ''Ajax'', plain_td ''Ned'',
                plain_td ''2-1'', plain_td ''0-3'']"
  have col: "fact_two_leg_winner
      (fact_table Map.empty Map.empty (club_map (dim_clubs df)) df) = [Some 2, None]"
    unfolding df_def page_two_legs_clubs unfolding page_two_legs_rows
    by (simp add: fact_table_def Let_def club_map_def text_eval)
  have i: "0 < length df"
    by (simp add: df_def page_two_legs_rows)
  have m: "df ! 0 \<in> set (snd (parse_tr (\<lambda>s. s) 2000 ?r (ascii ''Champions League'', [])))"
    unfolding df_def page_two_legs_rows
    by (simp add: walker_eval example_eval text_eval parse_score_def int_digits_def
        str_nat_small)
  have w: "fact_two_leg_winner
      (fact_table Map.empty Map.empty (club_map (dim_clubs df)) df) ! 0 = Some 2"
    by (simp add: col)
  have n: "py_strip (norm_text (\<lambda>s. s) (td_text (tr_tds ?r ! 0))) = ascii ''Milan''"
    by (simp add: example_eval norm_text_def Let_def text_eval)
  show ?thesis
    unfolding Let_def df_def[symmetric]
    using two_leg_winner_only_when_marked[OF i m w] col n
    by (simp add: example_eval)
qed

text \<open>The winner column of the page with no home name, whatever the other maps.\<close>

lemma page_no_home_winner:
  "fact_winner (fact_table cup_m stage_m
      (club_map (dim_clubs (parse_page (\<lambda>s. s) 2000 page_no_home)))
      (parse_page (\<lambda>s. s) 2000 page_no_home)) = [ascii ''<NA>'']"
  unfolding page_no_home_clubs unfolding page_no_home_rows
  by (simp add: fact_table_def Let_def club_map_def text_eval to_numeric_def int_digits_def
      np_gt_def np_lt_def np_eq_def int64_str_def)

section \<open>Competition ids\<close>

lemma fold_upd_distinct:
  assumes "distinct (map kf rows)"
  shows "fold (\<lambda>row m. m(kf row \<mapsto> vf row)) rows Map.empty k = Some v \<longleftrightarrow>
    (\<exists>r\<in>set rows. kf r = k \<and> vf r = v)"
proof -
  have d: "distinct (map fst (rev (map (\<lambda>r. (kf r, vf r)) rows)))"
    using assms by (simp add: rev_map[symmetric] comp_def distinct_rev)
  show ?thesis
    unfolding fold_upd_map_of using map_of_eq_Some_iff[OF d, of k v] by auto
qed

lemma unique_fold:
  "distinct acc \<Longrightarrow>
   distinct (fold (\<lambda>x acc. if x \<in> set acc then acc else acc @ [x]) xs acc) \<and>
   set (fold (\<lambda>x acc. if x \<in> set acc then acc else acc @ [x]) xs acc) = set acc \<union> set xs"
  by (induction xs arbitrary: acc) auto

lemma unique_props: "distinct (unique xs)" "set (unique xs) = set xs"
  using unique_fold[of "[]" xs] by (simp_all add: unique_def)

lemma cups_unique_distinct: "distinct (cups_unique df)"
  by (simp add: cups_unique_def unique_props)

lemma fixed_names_distinct:
  "CHAMPIONS_LEAGUE \<noteq> EUROPA_LEAGUE" "CHAMPIONS_LEAGUE \<noteq> CONFERENCE_LEAGUE"
  "EUROPA_LEAGUE \<noteq> CONFERENCE_LEAGUE"
  by (simp_all add: CHAMPIONS_LEAGUE_def EUROPA_LEAGUE_def CONFERENCE_LEAGUE_def ascii_def)

lemma fixed_cups_eq:
  "fixed_cups cs =
     ((if CHAMPIONS_LEAGUE \<in> set cs then [(1, CHAMPIONS_LEAGUE)] else []) @
      (if EUROPA_LEAGUE \<in> set cs then [(2, EUROPA_LEAGUE)] else []) @
      (if CONFERENCE_LEAGUE \<in> set cs then [(3, CONFERENCE_LEAGUE)] else []),
      (if CHAMPIONS_LEAGUE \<in> set cs then [1] else []) @
      (if EUROPA_LEAGUE \<in> set cs then [2] else []) @
      (if CONFERENCE_LEAGUE \<in> set cs then [3] else []))"
  by (simp add: fixed_cups_def CUP_ID_FIXED_def)

lemma next_free_free: "n \<notin> set used \<Longrightarrow> next_free n used = n"
  by (simp add: next_free.simps)

lemma assign_remaining_eq:
  "\<forall>u\<in>set used. u < n \<Longrightarrow>
   assign_remaining rs (rows, used, n) =
     (rows @ zip [n ..< n + length rs] rs, used @ [n ..< n + length rs], n + length rs)"
proof (induction rs arbitrary: rows used n)
  case Nil
  then show ?case by simp
next
  case (Cons r rs)
  have nf: "next_free n used = n"
    using Cons.prems by (intro next_free_free) auto
  have "\<forall>u\<in>set (used @ [n]). u < n + 1"
    using Cons.prems by auto
  from Cons.IH[OF this, of "rows @ [(n, r)]"]
  have ih: "assign_remaining rs (rows @ [(n, r)], used @ [n], n + 1) =
     ((rows @ [(n, r)]) @ zip [n + 1 ..< n + 1 + length rs] rs,
      (used @ [n]) @ [n + 1 ..< n + 1 + length rs], n + 1 + length rs)" .
  have u: "[n ..< n + length (r # rs)] = n # [n + 1 ..< n + 1 + length rs]"
    by (subst upt_rec) simp
  show ?case
    unfolding u using ih by (simp add: nf del: upt_Suc)
qed

lemma cup_rows_eq:
  "cup_rows cs = fst (fixed_cups cs) @ zip [4 ..< 4 + length (remaining cs)] (remaining cs)"
proof -
  have "\<forall>u\<in>set (snd (fixed_cups cs)). u < 4"
    by (auto simp: fixed_cups_eq)
  from assign_remaining_eq[OF this] show ?thesis
    by (simp add: cup_rows_def Let_def)
qed

lemma cup_rows_sorted: "sorted (map fst (cup_rows cs))"
  by (auto simp: cup_rows_eq fixed_cups_eq sorted_append dest!: set_zip_leftD)

lemma remaining_props:
  "sorted (remaining cs)" "set (remaining cs) = set cs - {CHAMPIONS_LEAGUE, EUROPA_LEAGUE, CONFERENCE_LEAGUE}"
  "distinct cs \<Longrightarrow> distinct (remaining cs)"
  by (auto simp: remaining_def CUP_ID_FIXED_def)

lemma cup_rows_names_distinct:
  assumes "distinct cs" shows "distinct (map snd (cup_rows cs))"
  using remaining_props(3)[OF assms] remaining_props(2)[of cs] fixed_names_distinct
  by (auto simp: cup_rows_eq fixed_cups_eq)


lemma cup_map_iff:
  assumes "distinct cs"
  shows "cup_map (sort_key fst (cup_rows cs)) k = Some v \<longleftrightarrow> (v, k) \<in> set (cup_rows cs)"
proof -
  have s: "sort_key fst (cup_rows cs) = cup_rows cs"
    by (rule sort_key_id_if_sorted[OF cup_rows_sorted])
  show ?thesis
    unfolding s cup_map_def
    using fold_upd_distinct[OF cup_rows_names_distinct[OF assms], of fst k v] by force
qed

lemma cup_rows_not_Nil: "cs \<noteq> [] \<Longrightarrow> cup_rows cs \<noteq> []"
proof -
  assume "cs \<noteq> []"
  then obtain c where c: "c \<in> set cs" by (cases cs) auto
  show ?thesis
  proof (cases "c \<in> {CHAMPIONS_LEAGUE, EUROPA_LEAGUE, CONFERENCE_LEAGUE}")
    case True
    then show ?thesis using c by (auto simp: cup_rows_eq fixed_cups_eq)
  next
    case False
    then have "c \<in> set (remaining cs)" using c by (simp add: remaining_props(2))
    then have "remaining cs \<noteq> []" by auto
    then show ?thesis by (simp add: cup_rows_eq)
  qed
qed

text \<open>
  C5. Over the distinct canonical names \<open>cs\<close> of the whole frame: when there is a name,
  the competition dimension is built; \<open>CHAMPIONS LEAGUE\<close>, \<open>EUROPA LEAGUE\<close> and
  \<open>CONFERENCE LEAGUE\<close> get the ids 1, 2 and 3 when they are among the names, wherever
  they stand in \<open>cs\<close>; the other names, sorted and each once, get 4, 5, 6 and so on in
  that order; a name that is not in \<open>cs\<close> gets none.
\<close>

theorem cup_ids_assigned:
  assumes "cs = cups_unique df" and "m = cup_map (sort_key fst (cup_rows cs))"
  shows "(cs \<noteq> [] \<longrightarrow> dim_cups cs = Inr (cup_rows cs)) \<and>
    (CHAMPIONS_LEAGUE \<in> set cs \<longrightarrow> m CHAMPIONS_LEAGUE = Some 1) \<and>
    (EUROPA_LEAGUE \<in> set cs \<longrightarrow> m EUROPA_LEAGUE = Some 2) \<and>
    (CONFERENCE_LEAGUE \<in> set cs \<longrightarrow> m CONFERENCE_LEAGUE = Some 3) \<and>
    sorted (remaining cs) \<and> distinct (remaining cs) \<and>
    set (remaining cs) = set cs - {CHAMPIONS_LEAGUE, EUROPA_LEAGUE, CONFERENCE_LEAGUE} \<and>
    (\<forall>i<length (remaining cs). m (remaining cs ! i) = Some (4 + i)) \<and>
    (\<forall>c. c \<notin> set cs \<longrightarrow> m c = None)"
proof -
  have d: "distinct cs"
    by (simp add: assms(1) cups_unique_distinct)
  note iff = cup_map_iff[OF d, folded assms(2)]
  have ne: "cs \<noteq> [] \<Longrightarrow> cup_rows cs \<noteq> []"
  proof -
    assume "cs \<noteq> []"
    then obtain c where c: "c \<in> set cs" by (cases cs) auto
    show ?thesis
    proof (cases "c \<in> {CHAMPIONS_LEAGUE, EUROPA_LEAGUE, CONFERENCE_LEAGUE}")
      case True
      then show ?thesis using c by (auto simp: cup_rows_eq fixed_cups_eq)
    next
      case False
      then have "c \<in> set (remaining cs)" using c by (simp add: remaining_props(2))
      then have "remaining cs \<noteq> []" by auto
      then show ?thesis by (simp add: cup_rows_eq)
    qed
  qed
  have dc: "cs \<noteq> [] \<longrightarrow> dim_cups cs = Inr (cup_rows cs)"
    using ne by (simp add: dim_cups_def sort_key_id_if_sorted[OF cup_rows_sorted])
  have fx: "CHAMPIONS_LEAGUE \<in> set cs \<longrightarrow> m CHAMPIONS_LEAGUE = Some 1"
    "EUROPA_LEAGUE \<in> set cs \<longrightarrow> m EUROPA_LEAGUE = Some 2"
    "CONFERENCE_LEAGUE \<in> set cs \<longrightarrow> m CONFERENCE_LEAGUE = Some 3"
    by (simp_all add: iff cup_rows_eq fixed_cups_eq)
  have rm: "\<forall>i<length (remaining cs). m (remaining cs ! i) = Some (4 + i)"
  proof (intro allI impI)
    fix i assume i: "i < length (remaining cs)"
    have "zip [4 ..< 4 + length (remaining cs)] (remaining cs) ! i = (4 + i, remaining cs ! i)"
      using i by simp
    moreover have "i < length (zip [4 ..< 4 + length (remaining cs)] (remaining cs))"
      using i by simp
    ultimately have "(4 + i, remaining cs ! i) \<in> set (zip [4 ..< 4 + length (remaining cs)] (remaining cs))"
      by (metis nth_mem)
    then show "m (remaining cs ! i) = Some (4 + i)"
      by (simp add: iff cup_rows_eq)
  qed
  have no: "\<forall>c. c \<notin> set cs \<longrightarrow> m c = None"
  proof (intro allI impI)
    fix c assume c: "c \<notin> set cs"
    show "m c = None"
    proof (cases "m c")
      case (Some v)
      then have "(v, c) \<in> set (cup_rows cs)" by (simp add: iff)
      then have "c \<in> set cs"
        using remaining_props(2)[of cs]
        by (auto simp: cup_rows_eq fixed_cups_eq split: if_splits dest!: set_zip_rightD)
      then show ?thesis using c by simp
    qed simp
  qed
  show ?thesis
    using dc fx rm no remaining_props(1,2)[of cs] remaining_props(3)[OF d] by blast
qed

lemma df_cups_unique:
  "cups_unique df_cups =
     [EUROPA_LEAGUE, ascii ''Intertoto Cup'', CHAMPIONS_LEAGUE, ascii ''Cup Winners Cup'']"
  by (simp add: cups_unique_def unique_def df_cups_def cup_only_def norm_cup_name_def
      EUROPA_LEAGUE_def CHAMPIONS_LEAGUE_def CONFERENCE_LEAGUE_def text_eval)

lemma df_cups_remaining:
  "remaining (cups_unique df_cups) = [ascii ''Cup Winners Cup'', ascii ''Intertoto Cup'']"
  unfolding df_cups_unique
  by (simp add: remaining_def CUP_ID_FIXED_def
      EUROPA_LEAGUE_def CHAMPIONS_LEAGUE_def CONFERENCE_LEAGUE_def ascii_def)

theorem cup_ids_assigned_witness:
  "(let m = cup_map (sort_key fst (cup_rows (cups_unique df_cups)))
    in m CHAMPIONS_LEAGUE = Some 1 \<and> m EUROPA_LEAGUE = Some 2 \<and>
       m (ascii ''Cup Winners Cup'') = Some 4 \<and> m (ascii ''Intertoto Cup'') = Some 5 \<and>
       m CONFERENCE_LEAGUE = None)"
proof -
  define m where "m = cup_map (sort_key fst (cup_rows (cups_unique df_cups)))"
  have mem: "CHAMPIONS_LEAGUE \<in> set (cups_unique df_cups)"
    "EUROPA_LEAGUE \<in> set (cups_unique df_cups)"
    "CONFERENCE_LEAGUE \<notin> set (cups_unique df_cups)"
    unfolding df_cups_unique
    by (simp_all add: EUROPA_LEAGUE_def CHAMPIONS_LEAGUE_def CONFERENCE_LEAGUE_def ascii_def)
  note t = cup_ids_assigned[OF refl m_def, unfolded df_cups_remaining]
  from t have a: "\<forall>i<length [ascii ''Cup Winners Cup'', ascii ''Intertoto Cup''].
      m ([ascii ''Cup Winners Cup'', ascii ''Intertoto Cup''] ! i) = Some (4 + i)"
    by blast
  have "m (ascii ''Cup Winners Cup'') = Some 4" "m (ascii ''Intertoto Cup'') = Some 5"
    using a[rule_format, of 0] a[rule_format, of 1] by simp_all
  then show ?thesis
    unfolding Let_def m_def[symmetric] using t mem by simp
qed

section \<open>Stage ids\<close>

lemma seed_stages_keys: "map fst seed_stages = [0 ..< 21]"
  by (simp add: seed_stages_def PROVIDED_STAGE_MAPPING_def upt_rec)

lemma seed_stages_ids: "map (\<lambda>kv. stage_id (snd kv)) seed_stages = [0 ..< 21]"
  by (simp add: seed_stages_def PROVIDED_STAGE_MAPPING_def upt_rec)

lemma seed_stages_importance:
  "map (\<lambda>kv. importance (snd kv)) seed_stages =
     [0, 1, 2, 3, 4, 4, 4, 5, 6, 7, 7, 7, 8, 9, 10, 10, 11, 12, 12, 13, 14]"
  by (simp add: seed_stages_def PROVIDED_STAGE_MAPPING_def)

lemma seed_key_list:
  "map (\<lambda>kv. norm_key (comp_stage_kes (snd kv))) seed_stages =
    [ascii ''winner'', ascii ''final'', ascii ''semi finals'', ascii ''quarter finals'',
     ascii ''2nd group stage'', ascii ''round 4'', ascii ''round of 16'',
     ascii ''knockout round play-offs'', ascii ''round 3'', ascii ''1st group stage'',
     ascii ''group stage'', ascii ''league stage'', ascii ''round 2'', ascii ''round 1'',
     ascii ''4th qualifying or play-off round'', ascii ''qualifying play-off round'',
     ascii ''3rd qualifying round'', ascii ''2nd qualifying round'', ascii ''qualifying round'',
     ascii ''1st qualifying round'', ascii ''preliminary round'']"
  by (simp add: seed_stages_def PROVIDED_STAGE_MAPPING_def norm_key_def text_eval)

lemma seed_keys_distinct:
  "distinct (map (\<lambda>kv. norm_key (comp_stage_kes (snd kv))) seed_stages)"
  unfolding seed_key_list by (simp add: ascii_def)

lemma seed_max: "Max (set (map fst seed_stages)) + 1 = 21"
proof -
  have "Max {0 ..< 21 :: nat} = 20"
    by (intro Max_eqI) auto
  then show ?thesis
    unfolding seed_stages_keys by simp
qed

lemma update_fresh: "k \<notin> fst ` set d \<Longrightarrow> AList.update k v d = d @ [(k, v)]"
  by (induction d) auto

lemma add_stages_eq:
  "\<forall>k\<in>fst ` set d. k < n \<Longrightarrow>
   add_stages ss (d, seen, n) =
     (d @ map new_row (zip [n ..< n + length (new_stages seen ss)] (new_stages seen ss)),
      seen \<union> norm_key ` set (new_stages seen ss),
      n + length (new_stages seen ss))"
proof (induction ss arbitrary: d seen n)
  case Nil
  then show ?case by simp
next
  case (Cons s ss)
  show ?case
  proof (cases "norm_key s \<in> seen")
    case True
    then show ?thesis using Cons.IH[OF Cons.prems] by simp
  next
    case False
    let ?d = "d @ [(n, \<lparr>stage_id = n, comp_stage_kes = s, importance = 0\<rparr>)]"
    let ?new = "new_stages (insert (norm_key s) seen) ss"
    have fresh: "n \<notin> fst ` set d"
      using Cons.prems by auto
    have "\<forall>k\<in>fst ` set ?d. k < n + 1"
      using Cons.prems by auto
    from Cons.IH[OF this, of "insert (norm_key s) seen"]
    have ih: "add_stages ss (?d, insert (norm_key s) seen, n + 1) =
       (?d @ map new_row (zip [n + 1 ..< n + 1 + length ?new] ?new),
        insert (norm_key s) seen \<union> norm_key ` set ?new, n + 1 + length ?new)" .
    have u: "[n ..< n + length (s # ?new)] = n # [n + 1 ..< n + 1 + length ?new]"
      by (subst upt_rec) simp
    have ns: "new_stages seen (s # ss) = s # ?new"
      using False by simp
    show ?thesis
      unfolding ns u using False ih
      by (simp add: update_fresh[OF fresh] new_row_def Let_def del: upt_Suc)
  qed
qed

lemma new_stages_subset: "set (new_stages seen xs) \<subseteq> set xs"
  by (induction xs arbitrary: seen) auto

lemma new_stages_unseen: "t \<in> set (new_stages seen xs) \<Longrightarrow> norm_key t \<notin> seen"
  by (induction xs arbitrary: seen) (auto split: if_splits)

lemma new_stages_distinct: "distinct (map norm_key (new_stages seen xs))"
  by (induction xs arbitrary: seen) (auto dest: new_stages_unseen)

lemma new_stages_covers:
  "x \<in> set xs \<Longrightarrow> norm_key x \<notin> seen \<Longrightarrow>
     norm_key x \<in> norm_key ` set (new_stages seen xs)"
  by (induction xs arbitrary: seen) auto

lemma new_stages_first:
  "sorted xs \<Longrightarrow> x \<in> set xs \<Longrightarrow> norm_key x \<notin> seen \<Longrightarrow>
   \<forall>t\<in>set xs. norm_key t = norm_key x \<longrightarrow> x \<le> t \<Longrightarrow>
     x \<in> set (new_stages seen xs)"
proof (induction xs arbitrary: seen)
  case Nil
  then show ?case by simp
next
  case (Cons a as)
  show ?case
  proof (cases "norm_key a = norm_key x")
    case True
    then have "x \<le> a" using Cons.prems(4) by simp
    moreover have "a \<le> x" using Cons.prems(1,2) by auto
    ultimately have "x = a" by simp
    then show ?thesis using Cons.prems(3) by simp
  next
    case False
    then have x: "x \<in> set as" using Cons.prems(2) by auto
    have s: "sorted as" using Cons.prems(1) by simp
    have h: "\<forall>t\<in>set as. norm_key t = norm_key x \<longrightarrow> x \<le> t"
      using Cons.prems(4) by simp
    show ?thesis
    proof (cases "norm_key a \<in> seen")
      case True
      then show ?thesis using Cons.IH[OF s x Cons.prems(3) h] by simp
    next
      case nin: False
      have "norm_key x \<notin> insert (norm_key a) seen"
        using False Cons.prems(3) by auto
      from Cons.IH[OF s x this h] show ?thesis using nin by simp
    qed
  qed
qed


lemma seed_keys_list: "seed_keys = set (map (\<lambda>kv. norm_key (comp_stage_kes (snd kv))) seed_stages)"
  by (simp add: seed_keys_def)

lemma dim_stages_rows_eq:
  "dim_stages_rows us =
     seed_stages @ map new_row (zip [21 ..< 21 + length (appended us)] (appended us))"
proof -
  have "\<forall>k\<in>fst ` set seed_stages. k < 21"
    using seed_stages_keys by (metis atLeastLessThan_iff set_map set_upt)
  then show ?thesis
    unfolding dim_stages_rows_def appended_def seed_max by (simp add: add_stages_eq)
qed

lemma map_fst_new_row:
  "map (fst \<circ> new_row) (zip [n ..< n + length xs] xs) = [n ..< n + length xs]"
proof -
  have "fst \<circ> new_row = fst"
    by (simp add: fun_eq_iff new_row_def)
  then show ?thesis
    by simp
qed

lemma dim_stages_eq:
  "dim_stages us =
     map snd seed_stages @
     map (\<lambda>p. \<lparr>stage_id = fst p, comp_stage_kes = snd p, importance = 0\<rparr>)
       (zip [21 ..< 21 + length (appended us)] (appended us))"
proof -
  have "map fst (dim_stages_rows us) = [0 ..< 21] @ [21 ..< 21 + length (appended us)]"
    unfolding dim_stages_rows_eq by (simp add: seed_stages_keys map_fst_new_row del: upt_Suc)
  also have "\<dots> = [0 ..< 21 + length (appended us)]"
    by (metis le_add1 upt_add_eq_append zero_le)
  finally have "sorted (map fst (dim_stages_rows us))"
    by simp
  then have "sort_key fst (dim_stages_rows us) = dim_stages_rows us"
    by (rule sort_key_id_if_sorted)
  then show ?thesis
    by (simp add: dim_stages_def dim_stages_rows_eq new_row_def comp_def)
qed


lemma appended_props:
  "set (appended us) \<subseteq> set us"
  "t \<in> set (appended us) \<Longrightarrow> norm_key t \<notin> seed_keys"
  "distinct (map norm_key (appended us))"
  "x \<in> set us \<Longrightarrow> norm_key x \<notin> seed_keys \<Longrightarrow> norm_key x \<in> norm_key ` set (appended us)"
  "x \<in> set us \<Longrightarrow> norm_key x \<notin> seed_keys \<Longrightarrow>
     \<forall>t\<in>set us. norm_key t = norm_key x \<longrightarrow> x \<le> t \<Longrightarrow> x \<in> set (appended us)"
  unfolding appended_def
  using new_stages_subset[of seed_keys "sort us"] new_stages_unseen[of t seed_keys "sort us"]
    new_stages_distinct[of seed_keys "sort us"] new_stages_covers[of x "sort us" seed_keys]
    new_stages_first[of "sort us" x seed_keys]
  by auto

lemma seed_row_props:
  assumes "r \<in> snd ` set seed_stages"
  shows "stage_id r \<le> 20" "norm_key (comp_stage_kes r) \<in> seed_keys"
proof -
  have "stage_id r \<in> set (map (\<lambda>kv. stage_id (snd kv)) seed_stages)"
    using assms by auto
  then show "stage_id r \<le> 20"
    unfolding seed_stages_ids by simp
  show "norm_key (comp_stage_kes r) \<in> seed_keys"
    using assms by (auto simp: seed_keys_def)
qed

lemma in_zip_upt:
  "(k, x) \<in> set (zip [n ..< n + length xs] xs) \<longleftrightarrow> (\<exists>i<length xs. k = n + i \<and> x = xs ! i)"
proof
  assume "(k, x) \<in> set (zip [n ..< n + length xs] xs)"
  then obtain i where i: "[n ..< n + length xs] ! i = k" "xs ! i = x" "i < length xs"
    by (auto simp: in_set_zip)
  then have "k = n + i"
    by simp
  then show "\<exists>i<length xs. k = n + i \<and> x = xs ! i"
    using i by auto
next
  assume "\<exists>i<length xs. k = n + i \<and> x = xs ! i"
  then obtain i where i: "i < length xs" "k = n + i" "x = xs ! i"
    by auto
  then have "[n ..< n + length xs] ! i = fst (k, x) \<and> xs ! i = snd (k, x) \<and>
      i < length [n ..< n + length xs] \<and> i < length xs"
    by simp
  then show "(k, x) \<in> set (zip [n ..< n + length xs] xs)"
    unfolding in_set_zip by blast
qed

lemma in_dim_stages:
  "r \<in> set (dim_stages us) \<longleftrightarrow>
     r \<in> snd ` set seed_stages \<or>
     (\<exists>i<length (appended us).
        r = \<lparr>stage_id = 21 + i, comp_stage_kes = appended us ! i, importance = 0\<rparr>)"
proof -
  let ?f = "\<lambda>p. \<lparr>stage_id = fst p, comp_stage_kes = snd p, importance = 0\<rparr>"
  let ?z = "zip [21 ..< 21 + length (appended us)] (appended us)"
  have "r \<in> ?f ` set ?z \<longleftrightarrow>
      (\<exists>i<length (appended us).
        r = \<lparr>stage_id = 21 + i, comp_stage_kes = appended us ! i, importance = 0\<rparr>)"
  proof
    assume "r \<in> ?f ` set ?z"
    then obtain k x where kx: "(k, x) \<in> set ?z" "r = ?f (k, x)"
      by auto
    from kx(1) obtain i where "i < length (appended us)" "k = 21 + i" "x = appended us ! i"
      unfolding in_zip_upt by auto
    then show "\<exists>i<length (appended us).
        r = \<lparr>stage_id = 21 + i, comp_stage_kes = appended us ! i, importance = 0\<rparr>"
      using kx(2) by auto
  next
    assume "\<exists>i<length (appended us).
        r = \<lparr>stage_id = 21 + i, comp_stage_kes = appended us ! i, importance = 0\<rparr>"
    then obtain i where i: "i < length (appended us)"
      "r = \<lparr>stage_id = 21 + i, comp_stage_kes = appended us ! i, importance = 0\<rparr>"
      by auto
    then have "(21 + i, appended us ! i) \<in> set ?z"
      unfolding in_zip_upt by auto
    then have "?f (21 + i, appended us ! i) \<in> ?f ` set ?z"
      by (rule imageI)
    then show "r \<in> ?f ` set ?z"
      using i(2) by simp
  qed
  then show ?thesis
    unfolding dim_stages_eq by auto
qed

lemma dim_stages_keys_distinct:
  "distinct (map (\<lambda>r. norm_key (comp_stage_kes r)) (dim_stages us))"
proof -
  have "map snd (zip [21 ..< 21 + length (appended us)] (appended us)) = appended us"
    by (simp add: map_snd_zip)
  then have z: "map (\<lambda>p. norm_key (snd p))
      (zip [21 ..< 21 + length (appended us)] (appended us)) = map norm_key (appended us)"
    by (metis (mono_tags, lifting) map_map comp_apply map_eq_conv)
  have d: "set (map (\<lambda>kv. norm_key (comp_stage_kes (snd kv))) seed_stages) \<inter>
      set (map norm_key (appended us)) = {}"
  proof -
    have "\<And>k. k \<in> set (map norm_key (appended us)) \<Longrightarrow> k \<notin> seed_keys"
      using appended_props(2)[of _ us] by auto
    then show ?thesis
      unfolding seed_keys_def by blast
  qed
  have "map (\<lambda>r. norm_key (comp_stage_kes r)) (dim_stages us) =
      map (\<lambda>kv. norm_key (comp_stage_kes (snd kv))) seed_stages @ map norm_key (appended us)"
    unfolding dim_stages_eq by (simp add: comp_def z)
  then show ?thesis
    using seed_keys_distinct appended_props(3)[of us] d by simp
qed

lemma stage_map_iff:
  "stage_map_norm (dim_stages us) k = Some v \<longleftrightarrow>
     (\<exists>r\<in>set (dim_stages us). norm_key (comp_stage_kes r) = k \<and> stage_id r = v)"
  unfolding stage_map_norm_def
  using fold_upd_distinct[where vf = stage_id and k = k and v = v,
      OF dim_stages_keys_distinct[of us]] .


lemma dim_stages_ids:
  "map stage_id (dim_stages us) = [0 ..< 21] @ [21 ..< 21 + length (appended us)]"
proof -
  have "map stage_id (map snd seed_stages) = [0 ..< 21]"
    using seed_stages_ids by (simp add: comp_def)
  moreover have "map stage_id
      (map (\<lambda>p. \<lparr>stage_id = fst p, comp_stage_kes = snd p, importance = 0\<rparr>)
         (zip [21 ..< 21 + length (appended us)] (appended us))) =
      map fst (zip [21 ..< 21 + length (appended us)] (appended us))"
    by (simp add: comp_def)
  ultimately show ?thesis
    unfolding dim_stages_eq by (simp del: upt_Suc)
qed

lemma seed_rows_resolve:
  assumes "r \<in> snd ` set seed_stages"
  shows "r \<in> set (dim_stages us)"
    "stage_map_norm (dim_stages us) (norm_key (comp_stage_kes r)) = Some (stage_id r)"
proof -
  show r: "r \<in> set (dim_stages us)"
    using assms by (simp add: in_dim_stages)
  then show "stage_map_norm (dim_stages us) (norm_key (comp_stage_kes r)) = Some (stage_id r)"
    unfolding stage_map_iff by blast
qed

lemma seeded_iff:
  "norm_key x \<in> seed_keys \<longleftrightarrow>
     (\<exists>sid\<le>20. stage_map_norm (dim_stages us) (norm_key x) = Some sid)"
proof
  assume "norm_key x \<in> seed_keys"
  then obtain r where r: "r \<in> snd ` set seed_stages" "norm_key (comp_stage_kes r) = norm_key x"
    unfolding seed_keys_def by force
  from seed_rows_resolve(2)[OF r(1), of us] seed_row_props(1)[OF r(1)] r(2)
  show "\<exists>sid\<le>20. stage_map_norm (dim_stages us) (norm_key x) = Some sid"
    by auto
next
  assume "\<exists>sid\<le>20. stage_map_norm (dim_stages us) (norm_key x) = Some sid"
  then obtain sid where sid: "sid \<le> 20" "stage_map_norm (dim_stages us) (norm_key x) = Some sid"
    by auto
  then obtain r where r: "r \<in> set (dim_stages us)" "norm_key (comp_stage_kes r) = norm_key x"
    "stage_id r = sid"
    unfolding stage_map_iff by auto
  from r(1) have "r \<in> snd ` set seed_stages"
    unfolding in_dim_stages using r(3) sid(1) by auto
  then show "norm_key x \<in> seed_keys"
    using seed_row_props(2) r(2) by metis
qed

lemma unseeded_appended:
  assumes "s \<in> set us" and "norm_key s \<notin> seed_keys"
  shows "\<exists>r\<in>set (dim_stages us). 20 < stage_id r \<and> importance r = 0 \<and>
          comp_stage_kes r \<in> set us \<and> norm_key (comp_stage_kes r) = norm_key s \<and>
          stage_map_norm (dim_stages us) (norm_key s) = Some (stage_id r) \<and>
          ((\<forall>t\<in>set us. norm_key t = norm_key s \<longrightarrow> s \<le> t) \<longrightarrow> comp_stage_kes r = s)"
proof -
  from appended_props(4)[OF assms] obtain t where t: "t \<in> set (appended us)"
    "norm_key t = norm_key s"
    by auto
  then obtain i where i: "i < length (appended us)" "appended us ! i = t"
    by (auto simp: in_set_conv_nth)
  define r where "r = \<lparr>stage_id = 21 + i, comp_stage_kes = t, importance = 0\<rparr>"
  have r: "r \<in> set (dim_stages us)"
    unfolding in_dim_stages r_def using i by auto
  have m: "stage_map_norm (dim_stages us) (norm_key s) = Some (stage_id r)"
    unfolding stage_map_iff by (rule bexI[OF _ r]) (simp add: r_def t(2))
  have f: "(\<forall>u\<in>set us. norm_key u = norm_key s \<longrightarrow> s \<le> u) \<longrightarrow> t = s"
  proof
    assume "\<forall>u\<in>set us. norm_key u = norm_key s \<longrightarrow> s \<le> u"
    from appended_props(5)[OF assms this] have "s \<in> set (appended us)" .
    moreover have "inj_on norm_key (set (appended us))"
      using appended_props(3)[of us] by (simp add: distinct_map)
    ultimately show "t = s"
      using t by (auto dest: inj_onD)
  qed
  have "comp_stage_kes r \<in> set us"
    using t(1) appended_props(1)[of us] by (auto simp: r_def)
  then show ?thesis
    using r m f t(2) by (intro bexI[of _ r]) (auto simp: r_def)
qed

lemma quarter_finals_seed:
  "\<lparr>stage_id = 3, comp_stage_kes = ascii ''Quarter Finals'', importance = 3\<rparr>
     \<in> snd ` set seed_stages"
  by (simp add: seed_stages_def PROVIDED_STAGE_MAPPING_def image_iff)

lemma quarter_finals_key:
  "norm_key (ascii ''quarter finals'') = norm_key (ascii ''Quarter Finals'')"
  by (simp add: norm_key_def text_eval)

text \<open>
  C6, as the code has it. With \<open>us\<close> the stage names of the frame, a name is resolved by
  the lookup of its normalised form in the map of the stage dimension. Every seeded
  row (the row 0 and the twenty provided ones) is kept and its name resolves to its own
  id; a name resolves to an id up to 20 exactly when its normalised form is that of a
  seeded row, and so \<open>quarter finals\<close> resolves to 3, the row of importance 3; the
  ids of the dimension are distinct. A name of \<open>us\<close> that matches no seeded row resolves
  to a row added with an id above 20 and importance 0, whose name is a name of \<open>us\<close>
  of the same normalised form; that name is the name itself when it is the least, in
  the order of the strings, among the names of \<open>us\<close> of its normalised form.
\<close>

theorem stage_resolution:
  "(\<forall>r\<in>snd ` set seed_stages. r \<in> set (dim_stages us) \<and>
       stage_map_norm (dim_stages us) (norm_key (comp_stage_kes r)) = Some (stage_id r)) \<and>
   (\<forall>x. norm_key x \<in> seed_keys \<longleftrightarrow>
       (\<exists>sid\<le>20. stage_map_norm (dim_stages us) (norm_key x) = Some sid)) \<and>
   stage_map_norm (dim_stages us) (norm_key (ascii ''quarter finals'')) = Some 3 \<and>
   \<lparr>stage_id = 3, comp_stage_kes = ascii ''Quarter Finals'', importance = 3\<rparr>
     \<in> set (dim_stages us) \<and>
   distinct (map stage_id (dim_stages us)) \<and>
   (\<forall>s\<in>set us. norm_key s \<notin> seed_keys \<longrightarrow>
      (\<exists>r\<in>set (dim_stages us). 20 < stage_id r \<and> importance r = 0 \<and>
          comp_stage_kes r \<in> set us \<and> norm_key (comp_stage_kes r) = norm_key s \<and>
          stage_map_norm (dim_stages us) (norm_key s) = Some (stage_id r) \<and>
          ((\<forall>t\<in>set us. norm_key t = norm_key s \<longrightarrow> s \<le> t) \<longrightarrow> comp_stage_kes r = s)))"
proof -
  have q: "stage_map_norm (dim_stages us) (norm_key (ascii ''quarter finals'')) = Some 3"
    using seed_rows_resolve(2)[OF quarter_finals_seed, of us] by (simp add: quarter_finals_key)
  have d: "distinct (map stage_id (dim_stages us))"
    unfolding dim_stages_ids by (auto simp del: upt_Suc)
  have a: "\<forall>r\<in>snd ` set seed_stages. r \<in> set (dim_stages us) \<and>
       stage_map_norm (dim_stages us) (norm_key (comp_stage_kes r)) = Some (stage_id r)"
    using seed_rows_resolve[of _ us] by blast
  have b: "\<forall>x. norm_key x \<in> seed_keys \<longleftrightarrow>
       (\<exists>sid\<le>20. stage_map_norm (dim_stages us) (norm_key x) = Some sid)"
    using seeded_iff[of _ us] by blast
  have e: "\<forall>s\<in>set us. norm_key s \<notin> seed_keys \<longrightarrow>
      (\<exists>r\<in>set (dim_stages us). 20 < stage_id r \<and> importance r = 0 \<and>
          comp_stage_kes r \<in> set us \<and> norm_key (comp_stage_kes r) = norm_key s \<and>
          stage_map_norm (dim_stages us) (norm_key s) = Some (stage_id r) \<and>
          ((\<forall>t\<in>set us. norm_key t = norm_key s \<longrightarrow> s \<le> t) \<longrightarrow> comp_stage_kes r = s))"
    using unseeded_appended[of _ us] by (intro ballI impI)
  show ?thesis
    by (intro conjI a b q seed_rows_resolve(1)[OF quarter_finals_seed] d e)
qed


lemma playoff_appended:
  "appended [ascii ''Playoff'', ascii ''playoff''] = [ascii ''Playoff'']"
  unfolding appended_def seed_keys_def seed_key_list
  by (simp add: norm_key_def text_eval)

lemma playoff_key: "norm_key (ascii ''playoff'') \<notin> seed_keys"
  unfolding seed_keys_def seed_key_list by (simp add: norm_key_def text_eval)

lemma length_seed_stages: "length seed_stages = 21"
  using arg_cong[OF seed_stages_keys, of length] by simp

text \<open>
  C6 as it is stated fails for names that differ in case only: of the two distinct
  names \<open>Playoff\<close> and \<open>playoff\<close>, neither of which matches a seeded row, only
  \<open>Playoff\<close> is added.
\<close>

theorem stage_not_appended_counterexample:
  "norm_key (ascii ''playoff'') \<notin> seed_keys \<and>
   length (dim_stages [ascii ''Playoff'', ascii ''playoff'']) = 22 \<and>
   map comp_stage_kes (drop 21 (dim_stages [ascii ''Playoff'', ascii ''playoff''])) =
     [ascii ''Playoff'']"
  unfolding dim_stages_eq playoff_appended
  by (simp add: playoff_key length_seed_stages)

theorem stage_resolution_witness:
  "norm_key (ascii ''Finals'') \<notin> seed_keys \<and>
   (\<exists>r\<in>set (dim_stages [ascii ''Finals'', ascii '' quarter FINALS '']).
       20 < stage_id r \<and> importance r = 0 \<and> comp_stage_kes r = ascii ''Finals'' \<and>
       stage_map_norm (dim_stages [ascii ''Finals'', ascii '' quarter FINALS ''])
         (norm_key (ascii ''Finals'')) = Some (stage_id r)) \<and>
   stage_map_norm (dim_stages [ascii ''Finals'', ascii '' quarter FINALS ''])
     (norm_key (ascii '' quarter FINALS '')) = Some 3"
proof -
  let ?us = "[ascii ''Finals'', ascii '' quarter FINALS '']"
  have k: "norm_key (ascii ''Finals'') \<notin> seed_keys"
    unfolding seed_keys_def seed_key_list by (simp add: norm_key_def text_eval)
  have q: "norm_key (ascii '' quarter FINALS '') = norm_key (ascii ''quarter finals'')"
    by (simp add: norm_key_def text_eval)
  have l: "\<forall>t\<in>set ?us. norm_key t = norm_key (ascii ''Finals'') \<longrightarrow> ascii ''Finals'' \<le> t"
    by (simp add: norm_key_def text_eval)
  have m: "ascii ''Finals'' \<in> set ?us"
    by simp
  note t = stage_resolution[of ?us]
  from t have "\<exists>r\<in>set (dim_stages ?us). 20 < stage_id r \<and> importance r = 0 \<and>
          comp_stage_kes r \<in> set ?us \<and>
          norm_key (comp_stage_kes r) = norm_key (ascii ''Finals'') \<and>
          stage_map_norm (dim_stages ?us) (norm_key (ascii ''Finals'')) = Some (stage_id r) \<and>
          ((\<forall>t\<in>set ?us. norm_key t = norm_key (ascii ''Finals'') \<longrightarrow> ascii ''Finals'' \<le> t)
             \<longrightarrow> comp_stage_kes r = ascii ''Finals'')"
    using m k by blast
  then have e: "\<exists>r\<in>set (dim_stages ?us).
       20 < stage_id r \<and> importance r = 0 \<and> comp_stage_kes r = ascii ''Finals'' \<and>
       stage_map_norm (dim_stages ?us) (norm_key (ascii ''Finals'')) = Some (stage_id r)"
    using l by blast
  from t have "stage_map_norm (dim_stages ?us) (norm_key (ascii ''quarter finals'')) = Some 3"
    by blast
  then show ?thesis
    using k e by (simp add: q)
qed

section \<open>The winner column\<close>

lemma page_no_home_cups:
  "cups_unique (parse_page (\<lambda>s. s) 2000 page_no_home) = [CHAMPIONS_LEAGUE]"
  unfolding page_no_home_rows
  by (simp add: cups_unique_def unique_def norm_cup_name_def CHAMPIONS_LEAGUE_def
      EUROPA_LEAGUE_def text_eval)

text \<open>
  C2 at a row whose home name is empty and whose home side has the higher goal count
  (the page \<open>page_no_home\<close>: a competition header and one row with no first team, the
  second team \<open>Ajax\<close> and the score 1-0): the dimensions are built, the empty name has
  no club id, and the winner column of the fact table holds the text \<open><NA>\<close>, which is
  neither a club id, nor \<open>draw\<close>, nor empty.
\<close>

theorem winner_of_unnamed_home:
  "(case build_frames (parse_page (\<lambda>s. s) 2000 page_no_home) of
      Inl e \<Rightarrow> Inl e
    | Inr (dc, ds, dcl, f) \<Rightarrow> Inr (fact_winner f)) = Inr [ascii ''<NA>'']"
proof -
  have "cup_rows (cups_unique (parse_page (\<lambda>s. s) 2000 page_no_home)) \<noteq> []"
    by (rule cup_rows_not_Nil) (simp add: page_no_home_cups)
  then show ?thesis
    by (simp add: build_frames_def dim_cups_def Let_def page_no_home_winner)
qed

end
